theory Spec2Isabelle
  imports
    Complex_Main
    "HOL-Library.Word"
    "HOL-Library.Multiset"
    "HOL-Library.Product_Lexorder"
begin

unbundle bit_operations_syntax

section \<open>Data model\<close>

text \<open>
  Conventions of the embedding.
  \<^item> A JavaScript string is a \<^typ>\<open>string\<close>; a \<^typ>\<open>char\<close> stands for one UTF-16 code
    unit in the range 0..255 (ISO 8859-1). Code units above 255 are not represented.
  \<^item> A JavaScript number that holds a count or a limit is an \<^typ>\<open>int\<close>: counts, sums of
    keyword scores and array lengths are integers far below \<open>2^53\<close>, where double
    arithmetic is exact.
  \<^item> Any other JavaScript number is a \<open>jsnumber\<close>: a real number or NaN. An arithmetic
    operation on doubles is the exact operation followed by the rounding to a double;
    the rounding is a parameter \<open>fl\<close> of every function that computes with such numbers,
    and with the identity as \<open>fl\<close> the arithmetic is exact. The infinities are not
    represented: the numbers of this program are bounded.
  \<^item> A \<open>Date\<close> is its time value: a number of milliseconds, or NaN for the invalid date
    that \<open>new Date\<close> builds from a text it cannot parse.
  \<^item> Objects that are compared by identity are references (\<^typ>\<open>nat\<close>) into a store.
\<close>

datatype jsnumber = Num real | NaN

datatype Date = ValidDate int | InvalidDate

text \<open>\<open>Date.prototype.getTime\<close>\<close>

fun getTime :: "Date \<Rightarrow> jsnumber" where
  "getTime (ValidDate t) = Num (real_of_int t)"
| "getTime InvalidDate = NaN"

text \<open>
  The operators \<open>+\<close>, \<open>-\<close>, \<open>*\<close> and \<open>/\<close> on numbers: NaN if an operand is NaN, the rounded
  exact result otherwise. The program divides by constants other than zero only; a zero
  divisor, for which JavaScript gives an infinity or NaN, is given NaN here.
\<close>

fun js_add :: "(real \<Rightarrow> real) \<Rightarrow> jsnumber \<Rightarrow> jsnumber \<Rightarrow> jsnumber" where
  "js_add fl (Num x) (Num y) = Num (fl (x + y))"
| "js_add fl _ _ = NaN"

fun js_sub :: "(real \<Rightarrow> real) \<Rightarrow> jsnumber \<Rightarrow> jsnumber \<Rightarrow> jsnumber" where
  "js_sub fl (Num x) (Num y) = Num (fl (x - y))"
| "js_sub fl _ _ = NaN"

fun js_mul :: "(real \<Rightarrow> real) \<Rightarrow> jsnumber \<Rightarrow> jsnumber \<Rightarrow> jsnumber" where
  "js_mul fl (Num x) (Num y) = Num (fl (x * y))"
| "js_mul fl _ _ = NaN"

fun js_div :: "(real \<Rightarrow> real) \<Rightarrow> jsnumber \<Rightarrow> jsnumber \<Rightarrow> jsnumber" where
  "js_div fl (Num x) (Num y) = (if y = 0 then NaN else Num (fl (x / y)))"
| "js_div fl _ _ = NaN"

text \<open>The comparisons \<open><=\<close> and \<open>>=\<close>: false if an operand is NaN.\<close>

fun js_le :: "jsnumber \<Rightarrow> jsnumber \<Rightarrow> bool" where
  "js_le (Num x) (Num y) \<longleftrightarrow> x \<le> y"
| "js_le _ _ \<longleftrightarrow> False"

fun js_ge :: "jsnumber \<Rightarrow> jsnumber \<Rightarrow> bool" where
  "js_ge (Num x) (Num y) \<longleftrightarrow> x \<ge> y"
| "js_ge _ _ \<longleftrightarrow> False"

text \<open>\<open>Math.max\<close> of two numbers: NaN if one of them is NaN.\<close>

fun js_max :: "jsnumber \<Rightarrow> jsnumber \<Rightarrow> jsnumber" where
  "js_max (Num x) (Num y) = Num (max x y)"
| "js_max _ _ = NaN"

text \<open>\<open>FeedItem\<close> (rss/index.ts) and \<open>ScoredFeedItem\<close> (interests/index.ts).\<close>

record FeedItem =
  title :: string
  link :: string
  pubDate :: "Date option"
  content :: string
  contentSnippet :: string
  author :: "string option"
  feedTitle :: string
  feedUrl :: string

record ScoredFeedItem = FeedItem +
  score :: jsnumber
  matchedTopics :: "string list"
  matchedKeywords :: "string list"
  recencyScore :: jsnumber

section \<open>Diversity selection: \<open>selectDiverseItems\<close>\<close>

text \<open>
  The array holds object references, and \<open>selected.includes(item)\<close> compares references.
  The store maps a reference to the item it points to.
\<close>

type_synonym ref = nat
type_synonym store = "ref \<Rightarrow> ScoredFeedItem"

text \<open>
  \<open>item.matchedTopics[0]\<close>, used as a property key: reading index 0 of an empty array
  gives \<open>undefined\<close>, which as a property key is the string \<open>undefined\<close>.
\<close>

definition primaryTopic :: "ScoredFeedItem \<Rightarrow> string" where
  "primaryTopic item = (case matchedTopics item of [] \<Rightarrow> ''undefined'' | t # _ \<Rightarrow> t)"

text \<open>
  \<open>topicCounts\<close> is the object literal \<open>{}\<close>. Its own properties are the map below. A key
  that is not an own property is looked up on \<open>Object.prototype\<close>, whose property names
  are listed in \<open>objectPrototypeKeys\<close>; the value found there is a function (an object
  for \<open>__proto__\<close>), which is truthy, so \<open>|| 0\<close> keeps it, and as a number it is NaN.
\<close>

type_synonym topicCounts = "string \<rightharpoonup> int"

definition objectPrototypeKeys :: "string list" where
  "objectPrototypeKeys =
     [''constructor'', ''__defineGetter__'', ''__defineSetter__'', ''hasOwnProperty'',
      ''__lookupGetter__'', ''__lookupSetter__'', ''isPrototypeOf'',
      ''propertyIsEnumerable'', ''toString'', ''valueOf'', ''__proto__'',
      ''toLocaleString'']"

datatype jsvalue = Number int | Inherited

text \<open>\<open>topicCounts[primaryTopic] || 0\<close>\<close>

definition currentCountOf :: "topicCounts \<Rightarrow> string \<Rightarrow> jsvalue" where
  "currentCountOf tc k =
     (case tc k of
        Some c \<Rightarrow> Number c
      | None \<Rightarrow> if k \<in> set objectPrototypeKeys then Inherited else Number 0)"

text \<open>\<open>currentCount < maxPerTopic\<close>: a comparison with NaN is false.\<close>

fun lessThan_js :: "jsvalue \<Rightarrow> int \<Rightarrow> bool" where
  "lessThan_js (Number c) m = (c < m)"
| "lessThan_js Inherited m = False"

text \<open>\<open>currentCount + 1\<close>, reached only when the comparison above succeeded.\<close>

fun plusOne_js :: "jsvalue \<Rightarrow> int" where
  "plusOne_js (Number c) = c + 1"
| "plusOne_js Inherited = 0"

text \<open>
  The first loop. The state is \<open>(selected, topicCounts)\<close>; \<open>break\<close> returns the state.
\<close>

fun diversityPass ::
  "store \<Rightarrow> ref list \<Rightarrow> int \<Rightarrow> int \<Rightarrow> ref list \<times> topicCounts \<Rightarrow> ref list \<times> topicCounts"
where
  "diversityPass h [] maxItems maxPerTopic st = st"
| "diversityPass h (item # rest) maxItems maxPerTopic (selected, tc) =
     (if int (length selected) \<ge> maxItems then (selected, tc)
      else
        let pt = primaryTopic (h item);
            currentCount = currentCountOf tc pt
        in if lessThan_js currentCount maxPerTopic
           then diversityPass h rest maxItems maxPerTopic
                  (selected @ [item], tc(pt \<mapsto> plusOne_js currentCount))
           else diversityPass h rest maxItems maxPerTopic (selected, tc))"

text \<open>The second loop.\<close>

fun fillPass :: "ref list \<Rightarrow> int \<Rightarrow> ref list \<Rightarrow> ref list" where
  "fillPass [] maxItems selected = selected"
| "fillPass (item # rest) maxItems selected =
     (if int (length selected) \<ge> maxItems then selected
      else if item \<notin> set selected then fillPass rest maxItems (selected @ [item])
      else fillPass rest maxItems selected)"

definition selectDiverseItems :: "store \<Rightarrow> ref list \<Rightarrow> int \<Rightarrow> int \<Rightarrow> ref list" where
  "selectDiverseItems h scoredItems maxItems maxPerTopic =
     (let selected = fst (diversityPass h scoredItems maxItems maxPerTopic ([], Map.empty))
      in if int (length selected) < maxItems
         then fillPass scoredItems maxItems selected
         else selected)"

text \<open>
  The selection as the specification words it: the first pass admits an item when fewer
  than \<open>maxPerTopic\<close> items with its primary topic have been admitted so far.
\<close>

definition admittedWithTopic :: "store \<Rightarrow> ref list \<Rightarrow> string \<Rightarrow> int" where
  "admittedWithTopic h selected t = int (length (filter (\<lambda>s. primaryTopic (h s) = t) selected))"

fun diversityPass_spec :: "store \<Rightarrow> ref list \<Rightarrow> int \<Rightarrow> int \<Rightarrow> ref list \<Rightarrow> ref list" where
  "diversityPass_spec h [] maxItems maxPerTopic selected = selected"
| "diversityPass_spec h (item # rest) maxItems maxPerTopic selected =
     (if int (length selected) \<ge> maxItems then selected
      else if admittedWithTopic h selected (primaryTopic (h item)) < maxPerTopic
           then diversityPass_spec h rest maxItems maxPerTopic (selected @ [item])
           else diversityPass_spec h rest maxItems maxPerTopic selected)"

definition selectDiverseItems_spec :: "store \<Rightarrow> ref list \<Rightarrow> int \<Rightarrow> int \<Rightarrow> ref list" where
  "selectDiverseItems_spec h scoredItems maxItems maxPerTopic =
     (let selected = diversityPass_spec h scoredItems maxItems maxPerTopic []
      in if int (length selected) < maxItems
         then fillPass scoredItems maxItems selected
         else selected)"

text \<open>The invariant of the first loop: the own properties of \<open>topicCounts\<close> count the admitted items.\<close>

definition countsAgree :: "store \<Rightarrow> ref list \<Rightarrow> topicCounts \<Rightarrow> bool" where
  "countsAgree h selected tc \<longleftrightarrow>
     (\<forall>t. tc t = (if admittedWithTopic h selected t = 0 then None
                  else Some (admittedWithTopic h selected t)))"

text \<open>The items of the repository's test: a title, a score and one topic.\<close>

definition createScoredItem :: "string \<Rightarrow> real \<Rightarrow> string \<Rightarrow> ScoredFeedItem" where
  "createScoredItem t s topic =
     \<lparr> title = t, link = ''https://example.com/'' @ t, pubDate = Some (ValidDate 0), content = '''',
       contentSnippet = '''', author = None, feedTitle = ''Test'',
       feedUrl = ''https://example.com/feed.rss'',
       score = Num s, matchedTopics = [topic], matchedKeywords = [], recencyScore = Num 50 \<rparr>"

definition testStore :: store where
  "testStore r =
     (if r = 0 then createScoredItem ''Apple 1'' 100 ''tech''
      else if r = 1 then createScoredItem ''Apple 2'' 90 ''tech''
      else if r = 2 then createScoredItem ''Apple 3'' 80 ''tech''
      else if r = 3 then createScoredItem ''Apple 4'' 70 ''tech''
      else if r = 4 then createScoredItem ''AI 1'' 60 ''ai''
      else createScoredItem ''AI 2'' 50 ''ai'')"

definition protoStore :: store where
  "protoStore r =
     (if r = 0 then createScoredItem ''A'' 100 ''constructor''
      else createScoredItem ''B'' 90 ''tech'')"

section \<open>Strings\<close>

text \<open>\<open>String.prototype.startsWith\<close> and \<open>endsWith\<close>.\<close>

definition startsWith :: "string \<Rightarrow> string \<Rightarrow> bool" where
  "startsWith s p \<longleftrightarrow> take (length p) s = p"

definition endsWith :: "string \<Rightarrow> string \<Rightarrow> bool" where
  "endsWith s p \<longleftrightarrow> drop (length s - length p) s = p"

text \<open>
  \<open>String.prototype.toLowerCase\<close> on the code units 0..255: the letters A-Z and the
  Latin-1 capitals 0xC0-0xDE (without the multiplication sign 0xD7) move up by 32.
\<close>

definition toLowerChar :: "char \<Rightarrow> char" where
  "toLowerChar c =
     (let n = (of_char c :: nat)
      in if (65 \<le> n \<and> n \<le> 90) \<or> (192 \<le> n \<and> n \<le> 222 \<and> n \<noteq> 215)
         then char_of (n + 32)
         else c)"

definition toLowerCase :: "string \<Rightarrow> string" where
  "toLowerCase s = map toLowerChar s"

section \<open>URL canonicalisation: \<open>canonicalizeUrl\<close>\<close>

text \<open>
  The platform's \<open>URL\<close> object is modelled by its URL record (WHATWG URL standard): the
  scheme without its colon, the credentials, the serialised host (empty when there is
  none), the port, the serialised path with the flag that tells an opaque path, the
  name-value list behind \<open>searchParams\<close>, and the fragment. The constructor
  \<open>new URL(url)\<close> and \<open>toString()\<close> are parameters of \<open>canonicalizeUrl\<close>; the setters
  the function calls are modelled below, for the values it passes to them (the literal
  \<open>https:\<close>, and pieces of the current path and host).
\<close>

record URL =
  scheme :: string
  username :: string
  password :: string
  hostname :: string
  port :: "nat option"
  pathname :: string
  opaquePath :: bool
  searchParams :: "(string \<times> string) list"
  hash :: "string option"

definition specialSchemes :: "string list" where
  "specialSchemes = [''ftp'', ''file'', ''http'', ''https'', ''ws'', ''wss'']"

definition isSpecial :: "URL \<Rightarrow> bool" where
  "isSpecial v \<longleftrightarrow> scheme v \<in> set specialSchemes"

definition includesCredentials :: "URL \<Rightarrow> bool" where
  "includesCredentials v \<longleftrightarrow> username v \<noteq> '''' \<or> password v \<noteq> ''''"

text \<open>
  \<open>parsed.searchParams.delete(name)\<close>: removes every pair of that name; the query of the
  URL becomes the serialisation of the list that remains.
\<close>

definition searchParams_delete :: "string \<Rightarrow> URL \<Rightarrow> URL" where
  "searchParams_delete name v =
     v\<lparr>searchParams := filter (\<lambda>(n, _). n \<noteq> name) (searchParams v)\<rparr>"

text \<open>
  \<open>parsed.protocol = 'https:'\<close>: ignored when the current scheme is not special, and for
  a \<open>file\<close> URL with an empty host; the port is dropped when it is the default port of
  the new scheme.
\<close>

definition set_protocol_https :: "URL \<Rightarrow> URL" where
  "set_protocol_https v =
     (if \<not> isSpecial v then v
      else if scheme v = ''file'' \<and> hostname v = '''' then v
      else v\<lparr>scheme := ''https'', port := (if port v = Some 443 then None else port v)\<rparr>)"

text \<open>
  \<open>parsed.pathname = value\<close>: ignored for an opaque path; a value that does not start
  with a slash gets one, except the empty value on a scheme that is not special.
\<close>

definition set_pathname :: "string \<Rightarrow> URL \<Rightarrow> URL" where
  "set_pathname val v =
     (if opaquePath v then v
      else if startsWith val ''/'' then v\<lparr>pathname := val\<rparr>
      else if val = '''' \<and> \<not> isSpecial v then v\<lparr>pathname := ''''\<rparr>
      else v\<lparr>pathname := CHR ''/'' # val\<rparr>)"

definition toLowerAscii :: "string \<Rightarrow> string" where
  "toLowerAscii s =
     map (\<lambda>c. if 65 \<le> (of_char c :: nat) \<and> (of_char c :: nat) \<le> 90 then toLowerChar c else c) s"

text \<open>
  \<open>parsed.hostname = value\<close>: ignored for an opaque path, and for the empty value when
  the scheme is special or the URL has credentials or a port; the host of a special
  scheme is stored in lower case.
\<close>

definition set_hostname :: "string \<Rightarrow> URL \<Rightarrow> URL" where
  "set_hostname val v =
     (if opaquePath v then v
      else if val = '''' \<and> (isSpecial v \<or> includesCredentials v \<or> port v \<noteq> None) then v
      else v\<lparr>hostname := (if isSpecial v then toLowerAscii val else val)\<rparr>)"

definition trackingParams :: "string list" where
  "trackingParams =
     [''utm_source'', ''utm_medium'', ''utm_campaign'', ''utm_term'', ''utm_content'',
      ''ref'', ''source'', ''fbclid'', ''gclid'', ''mc_cid'', ''mc_eid'']"

text \<open>The body of the \<open>try\<close> block, between the constructor and \<open>toString()\<close>.\<close>

definition canonicalizeParsed :: "URL \<Rightarrow> URL" where
  "canonicalizeParsed parsed0 =
     (let parsed1 = foldl (\<lambda>p param. searchParams_delete param p) parsed0 trackingParams;
          parsed2 = set_protocol_https parsed1;
          parsed3 = (if endsWith (pathname parsed2) ''/'' \<and> length (pathname parsed2) > 1
                     then set_pathname (butlast (pathname parsed2)) parsed2 else parsed2);
          parsed4 = (if startsWith (hostname parsed3) ''www.''
                     then set_hostname (drop 4 (hostname parsed3)) parsed3 else parsed3)
      in set_hostname (toLowerCase (hostname parsed4)) parsed4)"

text \<open>
  \<open>canonicalizeUrl\<close>: \<open>newURL\<close> is the constructor (\<open>None\<close> when it throws) and
  \<open>toString\<close> the serialiser; the \<open>catch\<close> returns the input.
\<close>

definition canonicalizeUrl ::
  "(string \<Rightarrow> URL option) \<Rightarrow> (URL \<Rightarrow> string) \<Rightarrow> string \<Rightarrow> string"
where
  "canonicalizeUrl newURL toString url =
     (case newURL url of
        None \<Rightarrow> url
      | Some parsed \<Rightarrow> toString (canonicalizeParsed parsed))"

text \<open>The host that \<open>canonicalizeParsed\<close> leaves, from the flags the host setter reads.\<close>

definition canonHost :: "bool \<Rightarrow> bool \<Rightarrow> bool \<Rightarrow> string \<Rightarrow> string" where
  "canonHost opaque special blocked h =
     (let fix = (\<lambda>s. if special then toLowerAscii s else s);
          h4 = (if startsWith h ''www.'' \<and> \<not> opaque \<and> \<not> (drop 4 h = '''' \<and> blocked)
                then fix (drop 4 h) else h)
      in if \<not> opaque \<and> \<not> (toLowerCase h4 = '''' \<and> blocked) then fix (toLowerCase h4) else h4)"



subsection \<open>A reading of the platform's URL parser and serialiser for plain URLs\<close>

text \<open>
  \<open>canonicalizeUrl\<close> takes the constructor and the serialiser as parameters. The closed
  examples below need an instance: \<open>parsePlainUrl\<close> reads URLs of the plain form
  \<open>http(s)://host/path?name=value&...#fragment\<close>, whose host is a domain name of letters,
  digits, dots and hyphens, and whose other parts are made of characters that the
  platform's parser neither encodes nor rewrites. On this form it returns what the
  platform returns. It returns \<open>None\<close> on every other input; the platform throws on some
  of them (those without a scheme, for one) and accepts others.
\<close>

definition charCode :: "char \<Rightarrow> nat" where
  "charCode c = of_char c"

definition isDigit :: "char \<Rightarrow> bool" where
  "isDigit c \<longleftrightarrow> 48 \<le> charCode c \<and> charCode c \<le> 57"

definition isLowerAlpha :: "char \<Rightarrow> bool" where
  "isLowerAlpha c \<longleftrightarrow> 97 \<le> charCode c \<and> charCode c \<le> 122"

definition isUpperAlpha :: "char \<Rightarrow> bool" where
  "isUpperAlpha c \<longleftrightarrow> 65 \<le> charCode c \<and> charCode c \<le> 90"

definition isAlnum :: "char \<Rightarrow> bool" where
  "isAlnum c \<longleftrightarrow> isDigit c \<or> isLowerAlpha c \<or> isUpperAlpha c"

text \<open>\<open>String.prototype.split\<close> with a one-character separator.\<close>

fun splitOn :: "char \<Rightarrow> string \<Rightarrow> string list" where
  "splitOn d [] = [[]]"
| "splitOn d (c # cs) =
     (if c = d then [] # splitOn d cs
      else (case splitOn d cs of x # xs \<Rightarrow> (c # x) # xs | [] \<Rightarrow> [[c]]))"

definition plainPathChar :: "char \<Rightarrow> bool" where
  "plainPathChar c \<longleftrightarrow> isAlnum c \<or> c \<in> set ''-._~/''"

definition plainQueryChar :: "char \<Rightarrow> bool" where
  "plainQueryChar c \<longleftrightarrow> isAlnum c \<or> c \<in> set ''*-._''"

definition plainHostChar :: "char \<Rightarrow> bool" where
  "plainHostChar c \<longleftrightarrow> isAlnum c \<or> c \<in> set ''-.''"

definition parsePlainQuery :: "string \<Rightarrow> (string \<times> string) list" where
  "parsePlainQuery q =
     map (\<lambda>s. (takeWhile (\<lambda>c. c \<noteq> CHR ''='') s, drop 1 (dropWhile (\<lambda>c. c \<noteq> CHR ''='') s)))
       (filter (\<lambda>s. s \<noteq> []) (splitOn (CHR ''&'') q))"

definition parsePlainUrl :: "string \<Rightarrow> URL option" where
  "parsePlainUrl s =
     (let sch = toLowerAscii (takeWhile (\<lambda>c. c \<noteq> CHR '':'') s);
          r0 = dropWhile (\<lambda>c. c \<noteq> CHR '':'') s;
          r1 = drop 3 r0;
          host = takeWhile (\<lambda>c. c \<notin> set ''/?#'') r1;
          r2 = dropWhile (\<lambda>c. c \<notin> set ''/?#'') r1;
          path = takeWhile (\<lambda>c. c \<notin> set ''?#'') r2;
          r3 = dropWhile (\<lambda>c. c \<notin> set ''?#'') r2;
          query = (if startsWith r3 ''?'' then takeWhile (\<lambda>c. c \<noteq> CHR ''#'') (drop 1 r3) else []);
          r4 = dropWhile (\<lambda>c. c \<noteq> CHR ''#'') r3;
          lastLabel = last (splitOn (CHR ''.'') host)
      in if (sch = ''http'' \<or> sch = ''https'') \<and> startsWith r0 ''://''
            \<and> host \<noteq> [] \<and> list_all plainHostChar host
            \<and> lastLabel \<noteq> [] \<and> \<not> isDigit (hd lastLabel)
            \<and> list_all plainPathChar path
            \<and> list_all (\<lambda>seg. seg \<noteq> ''.'' \<and> seg \<noteq> ''..'') (splitOn (CHR ''/'') path)
            \<and> list_all (\<lambda>c. plainQueryChar c \<or> c \<in> set ''=&'') query
            \<and> list_all plainPathChar (drop 1 r4)
         then Some \<lparr> scheme = sch, username = [], password = [],
                     hostname = toLowerAscii host, port = None,
                     pathname = (if path = [] then ''/'' else path), opaquePath = False,
                     searchParams = parsePlainQuery query,
                     hash = (if r4 = [] then None else Some (drop 1 r4)) \<rparr>
         else None)"

text \<open>Decimal digits of a port number.\<close>

fun showNat :: "nat \<Rightarrow> string" where
  "showNat n = (if n < 10 then [char_of (48 + n)] else showNat (n div 10) @ [char_of (48 + n mod 10)])"

text \<open>
  The UTF-8 bytes of a string whose code units are below 256: one byte below 128, two
  bytes from there on.
\<close>

definition utf8 :: "string \<Rightarrow> nat list" where
  "utf8 s = concat (map (\<lambda>c. if charCode c < 128 then [charCode c]
                               else [192 + charCode c div 64, 128 + charCode c mod 64]) s)"

text \<open>
  The \<open>application/x-www-form-urlencoded\<close> serialiser: a byte of the UTF-8 encoding is
  kept when it is alphanumeric or one of \<open>*-._\<close>, a space becomes \<open>+\<close>, and any other
  byte is written as \<open>%\<close> and two upper-case hexadecimal digits.
\<close>

definition hexDigitUpper :: "nat \<Rightarrow> char" where
  "hexDigitUpper n = ''0123456789ABCDEF'' ! (n mod 16)"

definition urlencodedByte :: "nat \<Rightarrow> string" where
  "urlencodedByte b =
     (if b < 128 \<and> plainQueryChar (char_of b) then [char_of b]
      else if b = 32 then ''+''
      else [CHR ''%'', hexDigitUpper (b div 16), hexDigitUpper b])"

definition urlencoded :: "string \<Rightarrow> string" where
  "urlencoded s = concat (map urlencodedByte (utf8 s))"

definition serializeParams :: "(string \<times> string) list \<Rightarrow> string" where
  "serializeParams ps =
     concat (map (\<lambda>(i, (n, v)). (if i = 0 then [] else ''&'')
                     @ urlencoded n @ ''='' @ urlencoded v)
               (zip [0 ..< length ps] ps))"

text \<open>The URL serialiser, for a URL with a host and a path that is not opaque.\<close>

definition serializeUrl :: "URL \<Rightarrow> string" where
  "serializeUrl v =
     scheme v @ ''://''
     @ (if includesCredentials v
        then username v @ (if password v = [] then [] else '':'' @ password v) @ ''@'' else [])
     @ hostname v
     @ (case port v of None \<Rightarrow> [] | Some p \<Rightarrow> '':'' @ showNat p)
     @ pathname v
     @ (if searchParams v = [] then [] else ''?'' @ serializeParams (searchParams v))
     @ (case hash v of None \<Rightarrow> [] | Some f \<Rightarrow> ''#'' @ f)"

text \<open>A URL without credentials, port and fragment, as \<open>parsePlainUrl\<close> returns it.\<close>

definition plainUrl :: "string \<Rightarrow> string \<Rightarrow> string \<Rightarrow> (string \<times> string) list \<Rightarrow> URL" where
  "plainUrl sch host path params =
     \<lparr> scheme = sch, username = [], password = [], hostname = host, port = None,
       pathname = path, opaquePath = False, searchParams = params, hash = None \<rparr>"

section \<open>Interest scoring\<close>

subsection \<open>\<open>normalizeText\<close>, \<open>escapeRegex\<close> and the regular expression of \<open>scoreKeyword\<close>\<close>

text \<open>
  The class \<open>\s\<close> on the code units 0..255: tab, line feed, vertical tab, form feed,
  carriage return, space and the no-break space.
\<close>

definition isWhitespace :: "char \<Rightarrow> bool" where
  "isWhitespace c \<longleftrightarrow> charCode c \<in> {9, 10, 11, 12, 13, 32, 160}"

text \<open>\<open>text.toLowerCase().replace(/[^a-z0-9\s-]/g, ' ')\<close>\<close>

definition normalizeText :: "string \<Rightarrow> string" where
  "normalizeText text =
     map (\<lambda>c. if isLowerAlpha c \<or> isDigit c \<or> isWhitespace c \<or> c = CHR ''-'' then c else CHR '' '')
       (toLowerCase text)"

text \<open>\<open>str.replace(/[.*+?^${}()|[\]\\]/g, '\\$&')\<close>\<close>

definition escapeRegex :: "string \<Rightarrow> string" where
  "escapeRegex str =
     concat (map (\<lambda>c. if c \<in> set ''.*+?^${}()|[]'' \<or> c = CHR 0x5C then [CHR 0x5C, c] else [c]) str)"

text \<open>
  The regular expressions that \<open>scoreKeyword\<close> builds are sequences of two kinds of
  atoms: the assertion \<open>\b\<close> and a single character. \<open>parsePattern\<close> reads the source of
  such an expression: a backslash and \<open>b\<close> is the assertion, a backslash and any other
  character is that character (an identity escape), and a character that is not a
  backslash stands for itself.
\<close>

datatype rx_atom = WordBoundary | Literal char

fun parsePattern :: "string \<Rightarrow> rx_atom list" where
  "parsePattern [] = []"
| "parsePattern [c] = [Literal c]"
| "parsePattern (c # d # cs) =
     (if c = CHR 0x5C then (if d = CHR ''b'' then WordBoundary else Literal d) # parsePattern cs
      else Literal c # parsePattern (d # cs))"

text \<open>The class \<open>\w\<close>, and \<open>\b\<close> between the character before the position and the rest.\<close>

definition isWordChar :: "char \<Rightarrow> bool" where
  "isWordChar c \<longleftrightarrow> isAlnum c \<or> c = CHR ''_''"

definition isWordBoundary :: "char option \<Rightarrow> string \<Rightarrow> bool" where
  "isWordBoundary prev rest \<longleftrightarrow>
     (case prev of None \<Rightarrow> False | Some c \<Rightarrow> isWordChar c)
       \<noteq> (case rest of [] \<Rightarrow> False | d # _ \<Rightarrow> isWordChar d)"

text \<open>The flag \<open>i\<close>: two code units match when they have the same case folding.\<close>

definition eqIgnoreCase :: "char \<Rightarrow> char \<Rightarrow> bool" where
  "eqIgnoreCase c d \<longleftrightarrow> toLowerChar c = toLowerChar d"

text \<open>
  A match of the expression at one position of the input. The position is the pair of
  the character before it (if any) and the rest of the input; the result is the matched
  text with the position after it.
\<close>

fun matchHere :: "rx_atom list \<Rightarrow> char option \<Rightarrow> string \<Rightarrow> (string \<times> char option \<times> string) option" where
  "matchHere [] prev rest = Some ([], prev, rest)"
| "matchHere (WordBoundary # r) prev rest =
     (if isWordBoundary prev rest then matchHere r prev rest else None)"
| "matchHere (Literal c # r) prev [] = None"
| "matchHere (Literal c # r) prev (d # rest) =
     (if eqIgnoreCase c d
      then (case matchHere r (Some d) rest of
              None \<Rightarrow> None
            | Some (m, prev', rest') \<Rightarrow> Some (d # m, prev', rest'))
      else None)"

lemma matchHere_splits:
  "matchHere r prev rest = Some (m, prev', rest') \<Longrightarrow> rest = m @ rest'"
  by (induction r prev rest arbitrary: m prev' rest' rule: matchHere.induct)
     (auto split: if_splits option.splits)

text \<open>
  \<open>String.prototype.match\<close> with the flag \<open>g\<close>: the matches from left to right; the
  search goes on after a match, one position further when the match is empty.
\<close>

function matchAll :: "rx_atom list \<Rightarrow> char option \<Rightarrow> string \<Rightarrow> string list" where
  "matchAll r prev rest =
     (case matchHere r prev rest of
        None \<Rightarrow> (case rest of [] \<Rightarrow> [] | d # rest' \<Rightarrow> matchAll r (Some d) rest')
      | Some (m, prev', rest') \<Rightarrow>
          m # (if m = [] then (case rest of [] \<Rightarrow> [] | d # rest'' \<Rightarrow> matchAll r (Some d) rest'')
               else matchAll r prev' rest'))"
  by pat_completeness auto
termination
proof (relation "measure (\<lambda>(r, prev, rest). length rest)", goal_cases)
  case 1
  show ?case by simp
next
  case (2 r prev rest d rest')
  then show ?case by simp
next
  case (3 r prev rest x m y prev' rest' d rest'')
  then show ?case by simp
next
  case (4 r prev rest x m y prev' rest')
  then have "rest = m @ rest'" by (auto dest: matchHere_splits)
  with 4 show ?case by auto
qed

definition scoreKeyword :: "string \<Rightarrow> string \<Rightarrow> int" where
  "scoreKeyword keyword text =
     (let normalizedKeyword = normalizeText keyword;
          normalizedText = normalizeText text;
          wordBoundaryRegex = parsePattern ([CHR 0x5C, CHR ''b''] @ escapeRegex normalizedKeyword @ [CHR 0x5C, CHR ''b'']);
          matches = matchAll wordBoundaryRegex None normalizedText
      in if matches = [] then 0
         else min 10 (int (length matches) * 2))"

text \<open>
  The count as the specification words it: the occurrences of the normalised keyword in
  the normalised text that begin and end at a word boundary, counted from left to right
  without overlap.
\<close>

definition occursHere :: "string \<Rightarrow> char option \<Rightarrow> string \<Rightarrow> bool" where
  "occursHere kw prev rest \<longleftrightarrow>
     isWordBoundary prev rest \<and> take (length kw) rest = kw
     \<and> isWordBoundary (if kw = [] then prev else Some (last kw)) (drop (length kw) rest)"

function countOccurrences :: "string \<Rightarrow> char option \<Rightarrow> string \<Rightarrow> nat" where
  "countOccurrences kw prev rest =
     (if occursHere kw prev rest
      then 1 + (if kw = [] then (case rest of [] \<Rightarrow> 0 | d # rest' \<Rightarrow> countOccurrences kw (Some d) rest')
                else countOccurrences kw (Some (last kw)) (drop (length kw) rest))
      else (case rest of [] \<Rightarrow> 0 | d # rest' \<Rightarrow> countOccurrences kw (Some d) rest'))"
  by pat_completeness auto
termination
proof (relation "measure (\<lambda>(kw, prev, rest). length rest)", goal_cases)
  case (3 kw prev rest)
  then have "take (length kw) rest = kw" by (simp add: occursHere_def)
  then have "length (take (length kw) rest) = length kw" by simp
  then have "length kw \<le> length rest" by simp
  with 3 show ?case by (cases rest) auto
qed auto

text \<open>A character that lower-casing leaves as it is.\<close>

definition caseStable :: "char \<Rightarrow> bool" where
  "caseStable c \<longleftrightarrow> toLowerChar c = c"

subsection \<open>\<open>calculateRecencyScore\<close> and \<open>scoreFeedItem\<close>\<close>

text \<open>
  \<open>InterestTopic\<close> (its field \<open>keywords\<close> is \<open>topicKeywords\<close> here); a
  \<open>DigestInterests\<close> object is the list of its entries, in the order of \<open>Object.entries\<close>.
\<close>

record InterestTopic =
  topicKeywords :: "string list"
  feeds :: "string list option"

type_synonym DigestInterests = "(string \<times> InterestTopic) list"

text \<open>
  \<open>now\<close> is the value of \<open>Date.now()\<close>, in milliseconds. A \<open>Date\<close> object is truthy, the
  invalid date too, so only \<open>null\<close> takes the first exit. The constant \<open>1000 * 60 * 60\<close>
  is the integer 3600000.
\<close>

definition calculateRecencyScore :: "(real \<Rightarrow> real) \<Rightarrow> int \<Rightarrow> Date option \<Rightarrow> jsnumber" where
  "calculateRecencyScore fl now date =
     (case date of
        None \<Rightarrow> Num 0
      | Some d \<Rightarrow>
          let ageMs = js_sub fl (Num (real_of_int now)) (getTime d);
              ageHours = js_div fl ageMs (Num 3600000)
          in if js_le ageHours (Num 6) then Num 100
             else if js_ge ageHours (Num 72) then Num 0
             else js_max (Num 0)
                    (js_sub fl (Num 100)
                       (js_mul fl (js_sub fl ageHours (Num 6)) (js_div fl (Num 100) (Num 66)))))"

text \<open>\<open>Array.prototype.join\<close>\<close>

fun joinWith :: "string \<Rightarrow> string list \<Rightarrow> string" where
  "joinWith sep [] = []"
| "joinWith sep [x] = x"
| "joinWith sep (x # y # ys) = x @ sep @ joinWith sep (y # ys)"

text \<open>The loop over the keywords of one topic; the state is \<open>(topicScore, matchedKeywords)\<close>.\<close>

fun keywordLoop :: "string \<Rightarrow> string list \<Rightarrow> int \<times> string list \<Rightarrow> int \<times> string list" where
  "keywordLoop textToSearch [] st = st"
| "keywordLoop textToSearch (keyword # rest) (topicScore, matchedKeywords') =
     (let keywordScore = scoreKeyword keyword textToSearch
      in if keywordScore > 0
         then keywordLoop textToSearch rest
                (topicScore + keywordScore,
                 if keyword \<notin> set matchedKeywords' then matchedKeywords' @ [keyword]
                 else matchedKeywords')
         else keywordLoop textToSearch rest (topicScore, matchedKeywords'))"

text \<open>The loop over the topics; the state is \<open>(totalScore, matchedTopics, matchedKeywords)\<close>.\<close>

fun topicLoop ::
  "string \<Rightarrow> DigestInterests \<Rightarrow> int \<times> string list \<times> string list \<Rightarrow> int \<times> string list \<times> string list"
where
  "topicLoop textToSearch [] st = st"
| "topicLoop textToSearch ((topicName, topic) # rest) (totalScore, matchedTopics', matchedKeywords') =
     (case keywordLoop textToSearch (topicKeywords topic) (0, matchedKeywords') of
        (topicScore, matchedKeywords'') \<Rightarrow>
          if topicScore > 0
          then topicLoop textToSearch rest
                 (totalScore + topicScore, matchedTopics' @ [topicName], matchedKeywords'')
          else topicLoop textToSearch rest (totalScore, matchedTopics', matchedKeywords''))"

definition textToSearch_of :: "'a FeedItem_scheme \<Rightarrow> string" where
  "textToSearch_of item =
     joinWith '' '' (filter (\<lambda>s. s \<noteq> []) [title item, contentSnippet item, content item])"

text \<open>
  \<open>scoreFeedItem\<close>. The literal \<open>0.2\<close> is the double next to it, \<open>fl 0.2\<close>.
\<close>

definition scoreFeedItem ::
  "(real \<Rightarrow> real) \<Rightarrow> int \<Rightarrow> FeedItem \<Rightarrow> DigestInterests \<Rightarrow> ScoredFeedItem"
where
  "scoreFeedItem fl now item interests =
     (case topicLoop (textToSearch_of item) interests (0, [], []) of
        (totalScore, matchedTopics', matchedKeywords') \<Rightarrow>
          let recencyScore' = calculateRecencyScore fl now (pubDate item);
              combinedScore = js_add fl (Num (real_of_int totalScore))
                                (js_mul fl recencyScore' (Num (fl 0.2)))
          in \<lparr> title = title item, link = link item, pubDate = pubDate item,
               content = content item, contentSnippet = contentSnippet item,
               author = author item, feedTitle = feedTitle item, feedUrl = feedUrl item,
               score = combinedScore, matchedTopics = matchedTopics',
               matchedKeywords = matchedKeywords', recencyScore = recencyScore' \<rparr>)"

subsection \<open>\<open>Array.prototype.sort\<close> and \<open>scoreAndRankFeedItems\<close>\<close>

text \<open>
  \<open>Array.prototype.sort\<close> is stable. For a comparison function that orders the elements
  consistently, the sorted array is determined: it is the one that stable insertion
  builds. \<open>cmp a b \<le> 0\<close> keeps \<open>a\<close> before \<open>b\<close>. Where the comparison function is not
  consistent, the standard leaves the order to the implementation; the model keeps
  stable insertion, which on the arrays of the examples below places the elements as
  the binary insertion of V8 does.
\<close>

fun insertBy :: "('a \<Rightarrow> 'a \<Rightarrow> real) \<Rightarrow> 'a \<Rightarrow> 'a list \<Rightarrow> 'a list" where
  "insertBy cmp x [] = [x]"
| "insertBy cmp x (y # ys) = (if cmp x y \<le> 0 then x # y # ys else y # insertBy cmp x ys)"

definition sortBy :: "('a \<Rightarrow> 'a \<Rightarrow> real) \<Rightarrow> 'a list \<Rightarrow> 'a list" where
  "sortBy cmp xs = foldr (insertBy cmp) xs []"

text \<open>
  \<open>clock i\<close> is the value of \<open>Date.now()\<close> while the item at index \<open>i\<close> is scored.
\<close>

definition scoredItems_of ::
  "(real \<Rightarrow> real) \<Rightarrow> (nat \<Rightarrow> int) \<Rightarrow> FeedItem list \<Rightarrow> DigestInterests \<Rightarrow> ScoredFeedItem list"
where
  "scoredItems_of fl clock items interests =
     map (\<lambda>(i, item). scoreFeedItem fl (clock i) item interests) (zip [0 ..< length items] items)"

text \<open>
  The sort reads the result of the comparison function through \<open>SortCompare\<close>, which
  takes NaN as \<open>+0\<close>.
\<close>

fun sortCompare :: "jsnumber \<Rightarrow> real" where
  "sortCompare (Num v) = v"
| "sortCompare NaN = 0"

definition scoreAndRankFeedItems ::
  "(real \<Rightarrow> real) \<Rightarrow> (nat \<Rightarrow> int) \<Rightarrow> FeedItem list \<Rightarrow> DigestInterests \<Rightarrow> ScoredFeedItem list"
where
  "scoreAndRankFeedItems fl clock items interests =
     (let scoredItems = scoredItems_of fl clock items interests;
          relevantItems = filter (\<lambda>item. length (matchedTopics item) > 0) scoredItems
      in sortBy (\<lambda>a b. sortCompare (js_sub fl (score b) (score a))) relevantItems)"

text \<open>The score of a topic as the specification words it: the sum over its keywords.\<close>

definition topicScore_spec :: "string \<Rightarrow> InterestTopic \<Rightarrow> int" where
  "topicScore_spec textToSearch topic = (\<Sum>k \<leftarrow> topicKeywords topic. scoreKeyword k textToSearch)"

text \<open>Items and interests of the repository's tests.\<close>

definition appleItem :: FeedItem where
  "appleItem = \<lparr> title = ''Apple announces new iPhone 16'', link = ''https://example.com/article'',
       pubDate = Some (ValidDate 0), content = [], contentSnippet = [], author = None,
       feedTitle = ''Test Feed'', feedUrl = ''https://example.com/feed.rss'' \<rparr>"

definition appleInterests :: DigestInterests where
  "appleInterests = [(''apple_products'', \<lparr> topicKeywords = [''apple'', ''iphone''], feeds = None \<rparr>)]"

definition weatherItem :: FeedItem where
  "weatherItem = appleItem \<lparr> title := ''Weather forecast for today'' \<rparr>"



section \<open>Fallback ranking and fallback summaries\<close>

text \<open>
  \<open>ArticleTier\<close>, \<open>ArticleForRanking\<close> and \<open>SummaryResponse\<close> (llm/types.ts). The fields of
  an article carry the prefix \<open>art_\<close>, since \<open>id\<close> and the field names of a feed item
  are taken.
\<close>

datatype ArticleTier = critical | notable | related

record ArticleForRanking =
  art_id :: string
  art_title :: string
  art_source :: string
  art_pubDate :: "Date option"
  art_excerpt :: string
  art_contentSnippet :: string
  art_url :: string
  isManualSave :: bool
  art_matchedTopics :: "string list option"

record Ranking =
  tier :: ArticleTier
  tierReason :: string

record SummaryResponse =
  summary :: string
  oneLiner :: "string option"

text \<open>\<open>a.matchedTopics?.length || 0\<close>\<close>

definition topicCount :: "ArticleForRanking \<Rightarrow> nat" where
  "topicCount a = (case art_matchedTopics a of None \<Rightarrow> 0 | Some ts \<Rightarrow> length ts)"

text \<open>The comparison function of the sort in \<open>applyFallbackRanking\<close>.\<close>

definition compareArticles :: "ArticleForRanking \<Rightarrow> ArticleForRanking \<Rightarrow> real" where
  "compareArticles a b =
     (if isManualSave a \<noteq> isManualSave b then (if isManualSave a then - 1 else 1)
      else real (topicCount b) - real (topicCount a))"

definition tierOfIndex :: "nat \<Rightarrow> nat \<Rightarrow> nat \<Rightarrow> ArticleTier" where
  "tierOfIndex criticalCount notableCount index =
     (if index < criticalCount then critical
      else if index < criticalCount + notableCount then notable
      else related)"

text \<open>
  \<open>applyFallbackRanking\<close>. The result is a \<open>Map\<close> from article id to ranking;
  \<open>results.set\<close> replaces the entry of an id that is already a key. \<open>Math.floor\<close> of the
  product is the floor of the exact product.
\<close>

definition applyFallbackRanking :: "ArticleForRanking list \<Rightarrow> (string \<rightharpoonup> Ranking)" where
  "applyFallbackRanking articles =
     (if length articles = 0 then Map.empty
      else
        let sorted = sortBy compareArticles articles;
            criticalCount = max 1 (nat \<lfloor>real (length sorted) * 0.2\<rfloor>);
            notableCount = max 2 (nat \<lfloor>real (length sorted) * 0.3\<rfloor>)
        in foldl (\<lambda>results (index, article).
                    results(art_id article \<mapsto>
                      \<lparr> tier = tierOfIndex criticalCount notableCount index,
                        tierReason = ''Keyword-based fallback ranking'' \<rparr>))
             Map.empty (zip [0 ..< length sorted] sorted))"

text \<open>\<open>generateFallbackSummaries\<close>; \<open>slice(0, n)\<close> keeps the first \<open>n\<close> code units.\<close>

definition generateFallbackSummaries ::
  "(ArticleForRanking \<times> ArticleTier) list \<Rightarrow> (string \<rightharpoonup> SummaryResponse)"
where
  "generateFallbackSummaries articles =
     foldl (\<lambda>results (article, t).
              results(art_id article \<mapsto>
                \<lparr> summary = take (if t = critical then 400 else 150) (art_excerpt article) @ ''...'',
                  oneLiner = Some (art_title article) \<rparr>))
       Map.empty articles"

text \<open>
  The entry of one pair as the specification words it: the excerpt cut to 400 characters
  for the critical tier and to 150 otherwise, followed by the ellipsis, and the title as
  one-liner.
\<close>

definition fallbackSummary :: "ArticleForRanking \<times> ArticleTier \<Rightarrow> SummaryResponse" where
  "fallbackSummary p =
     \<lparr> summary = take (if snd p = critical then 400 else 150) (art_excerpt (fst p)) @ ''...'',
       oneLiner = Some (art_title (fst p)) \<rparr>"

text \<open>The articles of the repository's tests.\<close>

definition createArticle :: "string \<Rightarrow> bool \<Rightarrow> string list option \<Rightarrow> string \<Rightarrow> ArticleForRanking" where
  "createArticle i save topics excerpt =
     \<lparr> art_id = i, art_title = ''Article '' @ i, art_source = ''Feed'', art_pubDate = None,
       art_excerpt = excerpt, art_contentSnippet = ''Snippet'',
       art_url = ''https://test.com/'' @ i, isManualSave = save, art_matchedTopics = topics \<rparr>"

text \<open>The sort key that the comparison function of \<open>applyFallbackRanking\<close> orders by.\<close>

definition rankKey :: "ArticleForRanking \<Rightarrow> nat \<times> int" where
  "rankKey a = (if isManualSave a then 0 else 1, - int (topicCount a))"

text \<open>One \<open>set\<close> on a map, for an element with its index and for an element alone.\<close>

definition setEntry :: "('a \<Rightarrow> 'k) \<Rightarrow> (nat \<Rightarrow> 'a \<Rightarrow> 'v) \<Rightarrow> ('k \<rightharpoonup> 'v) \<Rightarrow> nat \<times> 'a \<Rightarrow> ('k \<rightharpoonup> 'v)" where
  "setEntry k v m e = m(k (snd e) \<mapsto> v (fst e) (snd e))"

definition putEntry :: "('a \<Rightarrow> 'k) \<Rightarrow> ('a \<Rightarrow> 'v) \<Rightarrow> ('k \<rightharpoonup> 'v) \<Rightarrow> 'a \<Rightarrow> ('k \<rightharpoonup> 'v)" where
  "putEntry k v m x = m(k x \<mapsto> v x)"

text \<open>Articles of the repository's tests.\<close>

definition rankingTestArticles :: "ArticleForRanking list" where
  "rankingTestArticles =
     [createArticle ''rss1'' False None ''Excerpt'',
      createArticle ''saved1'' True None ''Excerpt'',
      createArticle ''rss2'' False (Some [''topic1'']) ''Excerpt'']"

definition xs500 :: string where
  "xs500 = replicate 500 (CHR ''x'')"

section \<open>Content fingerprint: \<open>computeContentHash\<close>\<close>

subsection \<open>SHA-256 (FIPS 180-4), as \<open>createHash('sha256')\<close> computes it\<close>

type_synonym w32 = "32 word"

text \<open>
  The round constants: the first 32 bits of the fractional parts of the cube roots of the
  first 64 primes, in decimal.
\<close>

definition sha256_K :: "w32 list" where
  "sha256_K =
    [1116352408, 1899447441, 3049323471, 3921009573, 961987163, 1508970993,
     2453635748, 2870763221, 3624381080, 310598401, 607225278, 1426881987,
     1925078388, 2162078206, 2614888103, 3248222580, 3835390401, 4022224774,
     264347078, 604807628, 770255983, 1249150122, 1555081692, 1996064986,
     2554220882, 2821834349, 2952996808, 3210313671, 3336571891, 3584528711,
     113926993, 338241895, 666307205, 773529912, 1294757372, 1396182291,
     1695183700, 1986661051, 2177026350, 2456956037, 2730485921, 2820302411,
     3259730800, 3345764771, 3516065817, 3600352804, 4094571909, 275423344,
     430227734, 506948616, 659060556, 883997877, 958139571, 1322822218,
     1537002063, 1747873779, 1955562222, 2024104815, 2227730452, 2361852424,
     2428436474, 2756734187, 3204031479, 3329325298]"

type_synonym sha256_state = "w32 \<times> w32 \<times> w32 \<times> w32 \<times> w32 \<times> w32 \<times> w32 \<times> w32"

definition sha256_H0 :: sha256_state where
  "sha256_H0 =
    (0x6a09e667, 0xbb67ae85, 0x3c6ef372, 0xa54ff53a, 0x510e527f, 0x9b05688c, 0x1f83d9ab, 0x5be0cd19)"

definition Ch :: "w32 \<Rightarrow> w32 \<Rightarrow> w32 \<Rightarrow> w32" where
  "Ch x y z = (x AND y) XOR (NOT x AND z)"

definition Maj :: "w32 \<Rightarrow> w32 \<Rightarrow> w32 \<Rightarrow> w32" where
  "Maj x y z = (x AND y) XOR (x AND z) XOR (y AND z)"

definition bigSigma0 :: "w32 \<Rightarrow> w32" where
  "bigSigma0 x = word_rotr 2 x XOR word_rotr 13 x XOR word_rotr 22 x"

definition bigSigma1 :: "w32 \<Rightarrow> w32" where
  "bigSigma1 x = word_rotr 6 x XOR word_rotr 11 x XOR word_rotr 25 x"

definition smallSigma0 :: "w32 \<Rightarrow> w32" where
  "smallSigma0 x = word_rotr 7 x XOR word_rotr 18 x XOR drop_bit 3 x"

definition smallSigma1 :: "w32 \<Rightarrow> w32" where
  "smallSigma1 x = word_rotr 17 x XOR word_rotr 19 x XOR drop_bit 10 x"

text \<open>Padding: the byte 0x80, zero bytes up to 56 modulo 64, and the bit length in 8 bytes.\<close>

definition sha256_pad :: "nat list \<Rightarrow> nat list" where
  "sha256_pad msg =
     msg @ [128] @ replicate ((119 - length msg mod 64) mod 64) 0
     @ map (\<lambda>i. (8 * length msg) div 2 ^ (8 * i) mod 256) [7, 6, 5, 4, 3, 2, 1, 0]"

text \<open>The 16 big-endian words of a block of 64 bytes.\<close>

fun wordsOfBytes :: "nat list \<Rightarrow> w32 list" where
  "wordsOfBytes (a # b # c # d # rest) =
     of_nat (((a * 256 + b) * 256 + c) * 256 + d) # wordsOfBytes rest"
| "wordsOfBytes _ = []"

text \<open>The message schedule: \<open>n\<close> more words after the ones given.\<close>

fun sha256_schedule :: "nat \<Rightarrow> w32 list \<Rightarrow> w32 list" where
  "sha256_schedule 0 w = w"
| "sha256_schedule (Suc n) w =
     sha256_schedule n
       (w @ [smallSigma1 (w ! (length w - 2)) + w ! (length w - 7)
             + smallSigma0 (w ! (length w - 15)) + w ! (length w - 16)])"

definition sha256_round :: "sha256_state \<Rightarrow> w32 \<times> w32 \<Rightarrow> sha256_state" where
  "sha256_round st kw =
     (case st of (a, b, c, d, e, f, g, h) \<Rightarrow>
        let t1 = h + bigSigma1 e + Ch e f g + fst kw + snd kw;
            t2 = bigSigma0 a + Maj a b c
        in (t1 + t2, a, b, c, d + t1, e, f, g))"

definition sha256_add :: "sha256_state \<Rightarrow> sha256_state \<Rightarrow> sha256_state" where
  "sha256_add s t =
     (case s of (a, b, c, d, e, f, g, h) \<Rightarrow>
      case t of (a', b', c', d', e', f', g', h') \<Rightarrow>
        (a + a', b + b', c + c', d + d', e + e', f + f', g + g', h + h'))"

definition sha256_compress :: "sha256_state \<Rightarrow> nat list \<Rightarrow> sha256_state" where
  "sha256_compress st block =
     sha256_add st (foldl sha256_round st (zip sha256_K (sha256_schedule 48 (wordsOfBytes block))))"

text \<open>The blocks of the padded message, one after the other.\<close>

function sha256_blocks :: "sha256_state \<Rightarrow> nat list \<Rightarrow> sha256_state" where
  "sha256_blocks st bytes =
     (if length bytes < 64 then st
      else sha256_blocks (sha256_compress st (take 64 bytes)) (drop 64 bytes))"
  by pat_completeness auto
termination
  by (relation "measure (\<lambda>(st, bytes). length bytes)") auto

declare sha256_blocks.simps [simp del]

text \<open>Lower-case hexadecimal digits; a word gives eight of them.\<close>

definition hexDigit :: "nat \<Rightarrow> char" where
  "hexDigit n = ''0123456789abcdef'' ! (n mod 16)"

definition hex32 :: "w32 \<Rightarrow> string" where
  "hex32 w = map (\<lambda>i. hexDigit (unat (drop_bit (4 * i) w))) [7, 6, 5, 4, 3, 2, 1, 0]"

text \<open>\<open>createHash('sha256').update(s).digest('hex')\<close>, on the UTF-8 bytes of \<open>s\<close>.\<close>

definition sha256_hex :: "nat list \<Rightarrow> string" where
  "sha256_hex bytes =
     (case sha256_blocks sha256_H0 (sha256_pad bytes) of
        (a, b, c, d, e, f, g, h) \<Rightarrow> concat (map hex32 [a, b, c, d, e, f, g, h]))"

subsection \<open>\<open>computeContentHash\<close>\<close>

text \<open>\<open>replace(/\s+/g, ' ')\<close>: every maximal run of whitespace becomes one space.\<close>

function collapseWhitespace :: "string \<Rightarrow> string" where
  "collapseWhitespace [] = []"
| "collapseWhitespace (c # cs) =
     (if isWhitespace c then CHR '' '' # collapseWhitespace (dropWhile isWhitespace cs)
      else c # collapseWhitespace cs)"
  by pat_completeness auto
termination
  by (relation "measure length") (auto simp: length_dropWhile_le less_Suc_eq_le)

text \<open>\<open>String.prototype.trim\<close>\<close>

definition trim :: "string \<Rightarrow> string" where
  "trim s = rev (dropWhile isWhitespace (rev (dropWhile isWhitespace s)))"

definition normalizeContent :: "string \<Rightarrow> string" where
  "normalizeContent contentText = take 5000 (trim (collapseWhitespace (toLowerCase contentText)))"

definition computeContentHash :: "string \<Rightarrow> string" where
  "computeContentHash contentText = take 32 (sha256_hex (utf8 (normalizeContent contentText)))"

text \<open>
  The words of a text: the maximal runs of characters that are not whitespace. The
  normal form that the specification describes is the lower-cased words, joined by
  single spaces.
\<close>

function wordsOf :: "string \<Rightarrow> string list" where
  "wordsOf s =
     (case dropWhile isWhitespace s of
        [] \<Rightarrow> []
      | c # cs \<Rightarrow> takeWhile (\<lambda>x. \<not> isWhitespace x) (c # cs)
                 # wordsOf (dropWhile (\<lambda>x. \<not> isWhitespace x) (c # cs)))"
  by pat_completeness auto
termination
proof (relation "measure length", goal_cases)
  case 1
  show ?case by simp
next
  case (2 s c cs)
  then have "\<not> isWhitespace c" by (simp add: dropWhile_eq_Cons_conv)
  then have "dropWhile (\<lambda>x. \<not> isWhitespace x) (c # cs) = dropWhile (\<lambda>x. \<not> isWhitespace x) cs"
    by simp
  moreover have "length (dropWhile (\<lambda>x. \<not> isWhitespace x) cs) \<le> length cs"
    by (rule length_dropWhile_le)
  moreover have "length (c # cs) \<le> length s"
    using 2 length_dropWhile_le [of isWhitespace s] by simp
  ultimately show ?case by simp
qed

declare wordsOf.simps [simp del]

text \<open>The right half of \<open>trim\<close>.\<close>

definition rstrip :: "string \<Rightarrow> string" where
  "rstrip s = rev (dropWhile isWhitespace (rev s))"

definition isHexLower :: "char \<Rightarrow> bool" where
  "isHexLower c \<longleftrightarrow> c \<in> set ''0123456789abcdef''"

section \<open>The digest run: \<open>main\<close> of the cron job\<close>

text \<open>
  The persistence layer, content extraction, EPUB generation and delivery are
  collaborators. Their results are inputs of the run (\<open>Env\<close>), with a thrown error as
  \<open>Inl\<close> of its message; what the run does to them is recorded in the \<open>World\<close>. A call
  of the database client is taken to succeed. The feed items of the environment are what
  \<open>fetchMultipleFeeds\<close> returned.
\<close>

datatype DigestStatus = SUCCESS | FAILED

record FeedItemIncluded =
  fi_title :: string
  fi_link :: string
  fi_score :: jsnumber
  fi_topics :: "string list"

text \<open>
  The digest-run record. \<open>digestRun.create\<close> sets the user and the status; the other
  fields start empty.
\<close>

record DigestRun =
  run_userId :: string
  status :: DigestStatus
  finishedAt :: "int option"
  includedArticleIds :: "string list"
  feedItemsIncluded :: "FeedItemIncluded list"
  epubFilename :: "string option"
  emailMessageId :: "string option"
  error :: "string option"

record Article =
  a_id :: string
  a_title :: string
  a_author :: "string option"
  a_siteName :: "string option"
  a_url :: string
  a_contentHtml :: string
  a_readingMinutes :: nat
  a_contentHash :: string
  a_canonicalUrl :: string

record ExtractedArticle =
  ex_title :: string
  ex_author :: "string option"
  ex_siteName :: "string option"
  ex_contentHtml :: string
  ex_readingMinutes :: nat

record EpubArticle =
  ep_title :: string
  ep_author :: "string option"
  ep_siteName :: "string option"
  ep_url :: string
  ep_contentHtml :: string
  ep_readingMinutes :: nat

record Env =
  adminUser :: "string option"
  savedArticles :: "Article list"
  allArticles :: "Article list"
  env_interests :: DigestInterests
  env_feedItems :: "FeedItem list"
  env_clock :: "nat \<Rightarrow> int"
  env_round :: "real \<Rightarrow> real"
  newDate :: int
  env_newURL :: "string \<Rightarrow> URL option"
  env_urlToString :: "URL \<Rightarrow> string"
  DIGEST_MAX_ARTICLES :: int
  DIGEST_MAX_RSS :: int
  DIGEST_MAX_PER_TOPIC :: int
  DIGEST_SAVE_FEED_ITEMS :: bool
  extractArticle :: "string \<Rightarrow> string + ExtractedArticle"
  generateEpub :: "EpubArticle list \<Rightarrow> string + string"
  digestFilename :: string
  sendDigestToKindle :: "string \<Rightarrow> string \<Rightarrow> nat \<Rightarrow> string + string"

text \<open>
  The effects of a run: the digest-run record, the calls of \<open>sendDigestToKindle\<close> (file
  name and article count), the ids marked as sent, and the links archived as articles.
\<close>

record World =
  digestRun :: "DigestRun option"
  deliveries :: "(string \<times> nat) list"
  markedSent :: "string list"
  archived :: "string list"

definition emptyWorld :: World where
  "emptyWorld = \<lparr> digestRun = None, deliveries = [], markedSent = [], archived = [] \<rparr>"

text \<open>
  \<open>selectDiverseItems\<close> on an array of freshly scored items: each item is an object of
  its own, so the references are the indices of the array.
\<close>

definition selectDiverseItems_array :: "ScoredFeedItem list \<Rightarrow> int \<Rightarrow> int \<Rightarrow> ScoredFeedItem list" where
  "selectDiverseItems_array items maxItems maxPerTopic =
     map (\<lambda>r. items ! r)
       (selectDiverseItems (\<lambda>r. items ! r) [0 ..< length items] maxItems maxPerTopic)"

text \<open>Steps 2 and 3 of \<open>main\<close>: scoring, deduplication against the stored articles, selection.\<close>

definition selectedFeedItems_of :: "Env \<Rightarrow> ScoredFeedItem list" where
  "selectedFeedItems_of env =
     (let existingHashes = set (concat (map (\<lambda>a. [a_contentHash a, a_canonicalUrl a]) (allArticles env)));
          scoredItems = scoreAndRankFeedItems (env_round env) (env_clock env) (env_feedItems env)
                          (env_interests env);
          newItems = filter (\<lambda>item. canonicalizeUrl (env_newURL env) (env_urlToString env) (link item)
                                     \<notin> existingHashes) scoredItems
      in selectDiverseItems_array newItems (DIGEST_MAX_RSS env) (DIGEST_MAX_PER_TOPIC env))"

text \<open>\<open>Array.prototype.slice(0, n)\<close>: a negative \<open>n\<close> counts from the end.\<close>

definition slice0 :: "'a list \<Rightarrow> int \<Rightarrow> 'a list" where
  "slice0 xs n = (if n \<ge> 0 then take (nat n) xs else take (length xs - nat (- n)) xs)"

text \<open>
  Step 5, the loop over the selected items; the state is
  \<open>(feedArticles, feedItemsIncluded, archived)\<close>. A failed extraction is logged and the
  item is left out.
\<close>

fun extractLoop ::
  "Env \<Rightarrow> ScoredFeedItem list \<Rightarrow> EpubArticle list \<times> ScoredFeedItem list \<times> string list
     \<Rightarrow> EpubArticle list \<times> ScoredFeedItem list \<times> string list"
where
  "extractLoop env [] st = st"
| "extractLoop env (item # rest) (feedArticles, included, arch) =
     (case extractArticle env (link item) of
        Inl e \<Rightarrow> extractLoop env rest (feedArticles, included, arch)
      | Inr extracted \<Rightarrow>
          extractLoop env rest
            (feedArticles @ [\<lparr> ep_title = ex_title extracted, ep_author = ex_author extracted,
                               ep_siteName = (case ex_siteName extracted of
                                                None \<Rightarrow> Some (feedTitle item)
                                              | Some s \<Rightarrow> if s = [] then Some (feedTitle item) else Some s),
                               ep_url = link item, ep_contentHtml = ex_contentHtml extracted,
                               ep_readingMinutes = ex_readingMinutes extracted \<rparr>],
             included @ [item],
             if DIGEST_SAVE_FEED_ITEMS env then arch @ [link item] else arch))"

text \<open>The \<open>catch\<close> block: the run is marked as failed, and the error is thrown again.\<close>

definition failRun :: "Env \<Rightarrow> World \<Rightarrow> string \<Rightarrow> World \<times> (string + unit)" where
  "failRun env w msg =
     (w\<lparr> digestRun := map_option (\<lambda>r. r\<lparr> finishedAt := Some (newDate env), status := FAILED,
                                              error := Some msg \<rparr>) (digestRun w) \<rparr>,
      Inl msg)"

text \<open>
  \<open>main\<close>. The result is the world after the run and the outcome of the promise:
  \<open>Inl\<close> of the message when it rejects.
\<close>

definition main :: "Env \<Rightarrow> World \<times> (string + unit)" where
  "main env =
     (case adminUser env of
        None \<Rightarrow> failRun env emptyWorld ''No admin user found. Run db:seed first.''
      | Some userId \<Rightarrow>
          let w1 = emptyWorld\<lparr> digestRun := Some \<lparr> run_userId = userId, status = SUCCESS,
                      finishedAt = None, includedArticleIds = [], feedItemsIncluded = [],
                      epubFilename = None, emailMessageId = None, error = None \<rparr> \<rparr>;
              saved = savedArticles env;
              selectedFeedItems = selectedFeedItems_of env
          in if length saved = 0 \<and> length selectedFeedItems = 0
             then (w1\<lparr> digestRun := map_option (\<lambda>r. r\<lparr> finishedAt := Some (newDate env),
                          status := SUCCESS, includedArticleIds := [], feedItemsIncluded := [],
                          error := Some ''No articles available'' \<rparr>) (digestRun w1) \<rparr>,
                   Inr ())
             else
               (case extractLoop env selectedFeedItems ([], [], []) of
                  (feedArticles, included, arch) \<Rightarrow>
                    let w2 = w1\<lparr> archived := arch \<rparr>;
                        allEpubArticles =
                          map (\<lambda>a. \<lparr> ep_title = a_title a, ep_author = a_author a,
                                     ep_siteName = a_siteName a, ep_url = a_url a,
                                     ep_contentHtml = a_contentHtml a,
                                     ep_readingMinutes = a_readingMinutes a \<rparr>) saved
                          @ feedArticles;
                        finalArticles = slice0 allEpubArticles (DIGEST_MAX_ARTICLES env)
                    in (case generateEpub env finalArticles of
                          Inl e \<Rightarrow> failRun env w2 e
                        | Inr epub \<Rightarrow>
                            (case sendDigestToKindle env epub (digestFilename env) (length finalArticles) of
                               Inl e \<Rightarrow>
                                 failRun env
                                   (w2\<lparr> deliveries := deliveries w2 @ [(digestFilename env, length finalArticles)] \<rparr>) e
                             | Inr messageId \<Rightarrow>
                                 let ids = map a_id (slice0 saved (int (length finalArticles)));
                                     w3 = w2\<lparr> deliveries := deliveries w2 @ [(digestFilename env, length finalArticles)],
                                              markedSent := ids \<rparr>
                                 in (w3\<lparr> digestRun := map_option
                                          (\<lambda>r. r\<lparr> finishedAt := Some (newDate env), status := SUCCESS,
                                                   includedArticleIds := ids,
                                                   feedItemsIncluded :=
                                                     map (\<lambda>i. \<lparr> fi_title = title i, fi_link = link i,
                                                                 fi_score = score i, fi_topics = matchedTopics i \<rparr>)
                                                       included,
                                                   epubFilename := Some (digestFilename env),
                                                   emailMessageId := Some messageId \<rparr>)
                                          (digestRun w3) \<rparr>,
                                     Inr ())))))"

text \<open>An environment without saved articles and without feed items, and one with a saved article.\<close>

definition emptyEnv :: Env where
  "emptyEnv =
     \<lparr> adminUser = Some ''admin'', savedArticles = [], allArticles = [], env_interests = appleInterests,
       env_feedItems = [], env_clock = (\<lambda>i. 0), env_round = (\<lambda>x. x), newDate = 0, env_newURL = parsePlainUrl,
       env_urlToString = serializeUrl, DIGEST_MAX_ARTICLES = 15, DIGEST_MAX_RSS = 10,
       DIGEST_MAX_PER_TOPIC = 3, DIGEST_SAVE_FEED_ITEMS = False,
       extractArticle = (\<lambda>url. Inl ''Failed to fetch URL''),
       generateEpub = (\<lambda>articles. Inr ''epub''),
       digestFilename = ''kindle-digest-1970-01-01.epub'',
       sendDigestToKindle = (\<lambda>epub filename n. Inr ''message-1'') \<rparr>"

definition savedArticle :: Article where
  "savedArticle =
     \<lparr> a_id = ''a1'', a_title = ''Saved'', a_author = None, a_siteName = None,
       a_url = ''https://example.com/saved'', a_contentHtml = ''<p>text</p>'',
       a_readingMinutes = 1, a_contentHash = ''00'', a_canonicalUrl = ''https://example.com/saved'' \<rparr>"

definition savedEnv :: Env where
  "savedEnv = emptyEnv\<lparr> savedArticles := [savedArticle] \<rparr>"

section \<open>Lemmas on the diversity selection\<close>

lemma diversityPass_props:
  "distinct (sel @ rs) \<Longrightarrow>
     distinct (fst (diversityPass h rs mi mp (sel, tc)))
     \<and> set (fst (diversityPass h rs mi mp (sel, tc))) \<subseteq> set sel \<union> set rs
     \<and> (int (length sel) \<le> mi \<longrightarrow> int (length (fst (diversityPass h rs mi mp (sel, tc)))) \<le> mi)"
proof (induction rs arbitrary: sel tc)
  case Nil
  then show ?case by simp
next
  case (Cons r rs)
  have d1: "distinct ((sel @ [r]) @ rs)" and d2: "distinct (sel @ rs)"
    using Cons.prems by auto
  note ih1 = Cons.IH [OF d1] and ih2 = Cons.IH [OF d2]
  show ?case
  proof (cases "int (length sel) \<ge> mi")
    case True
    then show ?thesis using Cons.prems by auto
  next
    case False
    show ?thesis
    proof (cases "lessThan_js (currentCountOf tc (primaryTopic (h r))) mp")
      case True
      define tc' where "tc' = tc(primaryTopic (h r) \<mapsto> plusOne_js (currentCountOf tc (primaryTopic (h r))))"
      have step: "diversityPass h (r # rs) mi mp (sel, tc) = diversityPass h rs mi mp (sel @ [r], tc')"
        using True False by (simp add: Let_def tc'_def)
      have "int (length (sel @ [r])) \<le> mi" using False by simp
      with ih1 [of tc'] show ?thesis unfolding step by auto
    next
      case F2: False
      have step: "diversityPass h (r # rs) mi mp (sel, tc) = diversityPass h rs mi mp (sel, tc)"
        using F2 False by (simp add: Let_def)
      from ih2 [of tc] show ?thesis unfolding step by auto
    qed
  qed
qed

lemma fillPass_distinct: "distinct sel \<Longrightarrow> distinct (fillPass rs mi sel)"
  by (induction rs arbitrary: sel) auto

lemma fillPass_subset: "set (fillPass rs mi sel) \<subseteq> set sel \<union> set rs"
proof (induction rs arbitrary: sel)
  case Nil
  show ?case by simp
next
  case (Cons r rs)
  from Cons [of sel] Cons [of "sel @ [r]"] show ?case by auto
qed

lemma fillPass_length:
  "distinct rs \<Longrightarrow> int (length sel) \<le> mi \<Longrightarrow>
   int (length (fillPass rs mi sel)) =
     min mi (int (length sel) + int (length (filter (\<lambda>r. r \<notin> set sel) rs)))"
proof (induction rs arbitrary: sel)
  case Nil
  then show ?case by simp
next
  case (Cons r rs)
  show ?case
  proof (cases "int (length sel) \<ge> mi")
    case True
    with Cons.prems show ?thesis by simp
  next
    case False
    show ?thesis
    proof (cases "r \<in> set sel")
      case True
      with False Cons show ?thesis by simp
    next
      case F2: False
      have eq: "filter (\<lambda>x. x \<notin> set (sel @ [r])) rs = filter (\<lambda>x. x \<notin> set sel) rs"
        using Cons.prems(1) by (intro filter_cong) auto
      have "int (length (fillPass rs mi (sel @ [r]))) =
              min mi (int (length (sel @ [r])) + int (length (filter (\<lambda>x. x \<notin> set (sel @ [r])) rs)))"
        using Cons.prems False by (intro Cons.IH) auto
      with False F2 eq show ?thesis by simp
    qed
  qed
qed

lemma length_filter_not_selected:
  assumes "distinct sel" "distinct rs" "set sel \<subseteq> set rs"
  shows "length sel + length (filter (\<lambda>r. r \<notin> set sel) rs) = length rs"
proof -
  have "length (filter (\<lambda>r. r \<notin> set sel) rs) = card (set rs - set sel)"
    using assms(2) by (simp add: distinct_length_filter Diff_eq Int_commute Collect_neg_eq)
  also have "\<dots> = card (set rs) - card (set sel)"
    using assms(3) by (simp add: card_Diff_subset)
  finally have "length (filter (\<lambda>r. r \<notin> set sel) rs) = length rs - length sel"
    using assms by (simp add: distinct_card)
  moreover have "length sel \<le> length rs"
    using assms by (metis card_mono distinct_card List.finite_set)
  ultimately show ?thesis by simp
qed

lemma countsAgree_empty: "countsAgree h [] Map.empty"
  by (simp add: countsAgree_def admittedWithTopic_def)

lemma currentCountOf_agree:
  "countsAgree h sel tc \<Longrightarrow> t \<notin> set objectPrototypeKeys \<Longrightarrow>
   currentCountOf tc t = Number (admittedWithTopic h sel t)"
  by (simp add: countsAgree_def currentCountOf_def)

lemma countsAgree_step:
  assumes "countsAgree h sel tc"
  shows "countsAgree h (sel @ [r])
           (tc(primaryTopic (h r) \<mapsto> admittedWithTopic h sel (primaryTopic (h r)) + 1))"
  using assms by (auto simp: countsAgree_def admittedWithTopic_def)

lemma diversityPass_refines:
  "countsAgree h sel tc \<Longrightarrow>
   \<forall>r \<in> set rs. primaryTopic (h r) \<notin> set objectPrototypeKeys \<Longrightarrow>
   fst (diversityPass h rs mi mp (sel, tc)) = diversityPass_spec h rs mi mp sel"
proof (induction rs arbitrary: sel tc)
  case Nil
  show ?case by simp
next
  case (Cons r rs)
  let ?t = "primaryTopic (h r)"
  have cc: "currentCountOf tc ?t = Number (admittedWithTopic h sel ?t)"
    using Cons.prems by (intro currentCountOf_agree) auto
  have rest: "\<forall>r \<in> set rs. primaryTopic (h r) \<notin> set objectPrototypeKeys"
    using Cons.prems by simp
  show ?case
  proof (cases "int (length sel) \<ge> mi")
    case True
    then show ?thesis by simp
  next
    case False
    show ?thesis
    proof (cases "admittedWithTopic h sel ?t < mp")
      case True
      have "fst (diversityPass h rs mi mp (sel @ [r], tc(?t \<mapsto> admittedWithTopic h sel ?t + 1)))
              = diversityPass_spec h rs mi mp (sel @ [r])"
        using countsAgree_step [OF Cons.prems(1)] rest by (rule Cons.IH)
      with True False cc show ?thesis by (simp add: Let_def)
    next
      case F2: False
      have "fst (diversityPass h rs mi mp (sel, tc)) = diversityPass_spec h rs mi mp sel"
        using Cons.prems(1) rest by (rule Cons.IH)
      with F2 False cc show ?thesis by (simp add: Let_def)
    qed
  qed
qed

lemma selectDiverseItems_refines_spec:
  assumes "\<forall>r \<in> set scoredItems. primaryTopic (h r) \<notin> set objectPrototypeKeys"
  shows "selectDiverseItems h scoredItems maxItems maxPerTopic
           = selectDiverseItems_spec h scoredItems maxItems maxPerTopic"
  using diversityPass_refines [OF countsAgree_empty assms, of maxItems maxPerTopic]
  by (simp add: selectDiverseItems_def selectDiverseItems_spec_def)

text \<open>The example of the repository's test and of the specification.\<close>

lemma selectDiverseItems_test_example:
  "selectDiverseItems testStore [0, 1, 2, 3, 4, 5] 5 2 = [0, 1, 4, 5, 2]"
  "map (\<lambda>r. score (testStore r)) (selectDiverseItems testStore [0, 1, 2, 3, 4, 5] 5 2)
     = [Num 100, Num 90, Num 60, Num 50, Num 80]"
  by (simp_all add: selectDiverseItems_def testStore_def createScoredItem_def primaryTopic_def
        currentCountOf_def objectPrototypeKeys_def Let_def)

section \<open>Lemmas on URL canonicalisation\<close>

lemmas char_eval = char_of_def bit_Suc_0_iff

lemma toLowerChar_idem: "toLowerChar (toLowerChar c) = toLowerChar c"
  by (auto simp: toLowerChar_def Let_def)

lemma toLowerCase_idem: "toLowerCase (toLowerCase s) = toLowerCase s"
  by (simp add: toLowerCase_def toLowerChar_idem)

lemma toLowerAscii_toLowerCase: "toLowerAscii (toLowerCase s) = toLowerCase s"
  by (induction s) (auto simp: toLowerAscii_def toLowerCase_def toLowerChar_idem)

lemma toLowerCase_toLowerAscii: "toLowerCase (toLowerAscii s) = toLowerCase s"
  by (induction s) (auto simp: toLowerAscii_def toLowerCase_def toLowerChar_idem)

lemma toLowerCase_Nil_iff: "toLowerCase s = [] \<longleftrightarrow> s = []"
  by (simp add: toLowerCase_def)

lemma toLowerAscii_Nil_iff: "toLowerAscii s = [] \<longleftrightarrow> s = []"
  by (simp add: toLowerAscii_def)

lemma foldl_searchParams_delete:
  "foldl (\<lambda>p param. searchParams_delete param p) v ps
     = v\<lparr>searchParams := filter (\<lambda>(n, _). n \<notin> set ps) (searchParams v)\<rparr>"
proof (induction ps arbitrary: v)
  case Nil
  show ?case by simp
next
  case (Cons p ps)
  have "filter (\<lambda>(n, _). n \<notin> set ps) (filter (\<lambda>(n, _). n \<noteq> p) (searchParams v))
          = filter (\<lambda>(n, _). n \<notin> set (p # ps)) (searchParams v)"
    unfolding filter_filter by (rule filter_cong) auto
  then show ?case
    unfolding foldl_Cons Cons.IH by (simp add: searchParams_delete_def)
qed

lemma sel_set_pathname [simp]:
  "scheme (set_pathname x v) = scheme v"
  "port (set_pathname x v) = port v"
  "username (set_pathname x v) = username v"
  "password (set_pathname x v) = password v"
  "hostname (set_pathname x v) = hostname v"
  "opaquePath (set_pathname x v) = opaquePath v"
  "hash (set_pathname x v) = hash v"
  "searchParams (set_pathname x v) = searchParams v"
  "URL.more (set_pathname x v) = URL.more v"
  by (simp_all add: set_pathname_def)

lemma sel_set_hostname [simp]:
  "scheme (set_hostname x v) = scheme v"
  "port (set_hostname x v) = port v"
  "username (set_hostname x v) = username v"
  "password (set_hostname x v) = password v"
  "pathname (set_hostname x v) = pathname v"
  "opaquePath (set_hostname x v) = opaquePath v"
  "hash (set_hostname x v) = hash v"
  "searchParams (set_hostname x v) = searchParams v"
  "URL.more (set_hostname x v) = URL.more v"
  by (simp_all add: set_hostname_def)

lemma sel_set_protocol_https [simp]:
  "username (set_protocol_https v) = username v"
  "password (set_protocol_https v) = password v"
  "hostname (set_protocol_https v) = hostname v"
  "pathname (set_protocol_https v) = pathname v"
  "opaquePath (set_protocol_https v) = opaquePath v"
  "hash (set_protocol_https v) = hash v"
  "searchParams (set_protocol_https v) = searchParams v"
  "URL.more (set_protocol_https v) = URL.more v"
  by (simp_all add: set_protocol_https_def)

lemma sel_deleteAll [simp]:
  "scheme (foldl (\<lambda>p param. searchParams_delete param p) v ps) = scheme v"
  "port (foldl (\<lambda>p param. searchParams_delete param p) v ps) = port v"
  "username (foldl (\<lambda>p param. searchParams_delete param p) v ps) = username v"
  "password (foldl (\<lambda>p param. searchParams_delete param p) v ps) = password v"
  "hostname (foldl (\<lambda>p param. searchParams_delete param p) v ps) = hostname v"
  "pathname (foldl (\<lambda>p param. searchParams_delete param p) v ps) = pathname v"
  "opaquePath (foldl (\<lambda>p param. searchParams_delete param p) v ps) = opaquePath v"
  "hash (foldl (\<lambda>p param. searchParams_delete param p) v ps) = hash v"
  "URL.more (foldl (\<lambda>p param. searchParams_delete param p) v ps) = URL.more v"
  "searchParams (foldl (\<lambda>p param. searchParams_delete param p) v ps)
     = filter (\<lambda>(n, _). n \<notin> set ps) (searchParams v)"
  by (simp_all add: foldl_searchParams_delete)

lemma isSpecial_steps [simp]:
  "isSpecial (foldl (\<lambda>p param. searchParams_delete param p) v ps) = isSpecial v"
  "isSpecial (set_pathname x v) = isSpecial v"
  "isSpecial (set_hostname x v) = isSpecial v"
  "isSpecial (set_protocol_https v) = isSpecial v"
  by (simp_all add: isSpecial_def) (simp add: set_protocol_https_def isSpecial_def specialSchemes_def)

lemma includesCredentials_steps [simp]:
  "includesCredentials (foldl (\<lambda>p param. searchParams_delete param p) v ps) = includesCredentials v"
  "includesCredentials (set_pathname x v) = includesCredentials v"
  "includesCredentials (set_hostname x v) = includesCredentials v"
  "includesCredentials (set_protocol_https v) = includesCredentials v"
  by (simp_all add: includesCredentials_def)

lemma scheme_port_protocol_deleteAll [simp]:
  "scheme (set_protocol_https (foldl (\<lambda>p param. searchParams_delete param p) v ps)) = scheme (set_protocol_https v)"
  "port (set_protocol_https (foldl (\<lambda>p param. searchParams_delete param p) v ps)) = port (set_protocol_https v)"
  by (simp_all add: set_protocol_https_def)

lemma sel_canon:
  "scheme (canonicalizeParsed v) = scheme (set_protocol_https v)"
  "port (canonicalizeParsed v) = port (set_protocol_https v)"
  "username (canonicalizeParsed v) = username v"
  "password (canonicalizeParsed v) = password v"
  "opaquePath (canonicalizeParsed v) = opaquePath v"
  "hash (canonicalizeParsed v) = hash v"
  "URL.more (canonicalizeParsed v) = URL.more v"
  "searchParams (canonicalizeParsed v) = filter (\<lambda>(n, _). n \<notin> set trackingParams) (searchParams v)"
  "isSpecial (canonicalizeParsed v) = isSpecial v"
  "includesCredentials (canonicalizeParsed v) = includesCredentials v"
  by (simp_all add: canonicalizeParsed_def Let_def)

lemma pathname_set_pathname:
  "pathname (set_pathname x v) =
     (if opaquePath v then pathname v
      else if startsWith x ''/'' then x
      else if x = '''' \<and> \<not> isSpecial v then '''' else CHR ''/'' # x)"
  by (simp add: set_pathname_def)

lemma hostname_set_hostname:
  "hostname (set_hostname x v) =
     (if opaquePath v then hostname v
      else if x = '''' \<and> (isSpecial v \<or> includesCredentials v \<or> port v \<noteq> None) then hostname v
      else if isSpecial v then toLowerAscii x else x)"
  by (auto simp: set_hostname_def)

lemma pathname_canon:
  "pathname (canonicalizeParsed v) =
     (if endsWith (pathname v) ''/'' \<and> length (pathname v) > 1 \<and> \<not> opaquePath v
      then (if startsWith (butlast (pathname v)) ''/'' then butlast (pathname v)
            else CHR ''/'' # butlast (pathname v))
      else pathname v)"
proof -
  have "length (pathname v) > 1 \<Longrightarrow> butlast (pathname v) \<noteq> []"
    by (cases "pathname v" rule: rev_cases) auto
  then show ?thesis
    by (simp add: canonicalizeParsed_def Let_def pathname_set_pathname)
qed

lemma hostname_canon:
  "hostname (canonicalizeParsed v) =
     canonHost (opaquePath v) (isSpecial v)
       (isSpecial v \<or> includesCredentials v \<or> port (set_protocol_https v) \<noteq> None) (hostname v)"
proof -
  define w2 where "w2 = set_protocol_https (foldl (\<lambda>p param. searchParams_delete param p) v trackingParams)"
  define w3 where "w3 = (if endsWith (pathname w2) ''/'' \<and> length (pathname w2) > 1
                     then set_pathname (butlast (pathname w2)) w2 else w2)"
  define w4 where "w4 = (if startsWith (hostname w3) ''www.''
                     then set_hostname (drop 4 (hostname w3)) w3 else w3)"
  define bl where "bl \<longleftrightarrow> isSpecial v \<or> includesCredentials v \<or> port (set_protocol_https v) \<noteq> None"
  define nrm where "nrm = (\<lambda>s. if isSpecial v then toLowerAscii s else s)"
  have c: "canonicalizeParsed v = set_hostname (toLowerCase (hostname w4)) w4"
    by (simp add: canonicalizeParsed_def Let_def w2_def w3_def w4_def)
  have f3: "hostname w3 = hostname v" "opaquePath w3 = opaquePath v" "isSpecial w3 = isSpecial v"
       "includesCredentials w3 = includesCredentials v" "port w3 = port (set_protocol_https v)"
    by (simp_all add: w3_def w2_def)
  have f4: "opaquePath w4 = opaquePath v" "isSpecial w4 = isSpecial v"
       "includesCredentials w4 = includesCredentials v" "port w4 = port (set_protocol_https v)"
    by (simp_all add: w4_def f3)
  have h4: "hostname w4 = (if startsWith (hostname v) ''www.'' \<and> \<not> opaquePath v
                               \<and> \<not> (drop 4 (hostname v) = '''' \<and> bl)
                           then nrm (drop 4 (hostname v)) else hostname v)"
    unfolding w4_def by (auto simp: hostname_set_hostname f3 bl_def nrm_def)
  have "hostname (canonicalizeParsed v) =
          (if \<not> opaquePath v \<and> \<not> (toLowerCase (hostname w4) = '''' \<and> bl)
           then nrm (toLowerCase (hostname w4)) else hostname w4)"
    unfolding c by (auto simp: hostname_set_hostname f4 bl_def nrm_def)
  then show ?thesis
    unfolding h4 canonHost_def Let_def bl_def nrm_def by simp
qed


lemma toLowerCase_Nil: "toLowerCase [] = []"
  by (simp add: toLowerCase_def)

lemma www_lower: "toLowerCase ''www.'' = ''www.''" "toLowerAscii ''www.'' = ''www.''"
  by (simp_all add: toLowerCase_def toLowerAscii_def toLowerChar_def)

lemma startsWith_www_drop_Nil: "startsWith h ''www.'' \<Longrightarrow> drop 4 h = [] \<Longrightarrow> h = ''www.''"
proof -
  assume a: "startsWith h ''www.''" and b: "drop 4 h = []"
  have "take 4 h @ drop 4 h = h" by simp
  with a b show ?thesis by (simp add: startsWith_def)
qed

lemma canonHost_idem:
  assumes "\<not> startsWith (toLowerCase (if startsWith h ''www.'' then drop 4 h else h)) ''www.''"
  shows "canonHost op sp bl (canonHost op sp bl h) = canonHost op sp bl h"
proof (cases op)
  case True
  then show ?thesis by (simp add: canonHost_def)
next
  case False
  show ?thesis
  proof (cases "startsWith h ''www.'' \<and> drop 4 h = [] \<and> bl")
    case True
    then have h: "h = ''www.''" by (simp add: startsWith_www_drop_Nil)
    have "canonHost op sp bl ''www.'' = ''www.''"
      using True False h by (simp add: canonHost_def www_lower)
    then show ?thesis by (simp add: h)
  next
    case F2: False
    define g where "g = (if startsWith h ''www.'' then drop 4 h else h)"
    define L where "L = toLowerCase g"
    have nw: "\<not> startsWith L ''www.''" using assms by (simp add: L_def g_def)
    have Lnil: "L = [] \<longleftrightarrow> g = []" by (simp add: L_def toLowerCase_Nil_iff)
    have LL: "toLowerCase L = L" "toLowerAscii L = L"
      by (simp_all add: L_def toLowerCase_idem toLowerAscii_toLowerCase)
    have r: "canonHost op sp bl h = L"
      using False F2
      by (auto simp: canonHost_def Let_def L_def g_def toLowerCase_toLowerAscii
            toLowerAscii_toLowerCase toLowerCase_Nil_iff toLowerAscii_Nil_iff toLowerCase_Nil)
    have "canonHost op sp bl L = L"
      using False nw by (auto simp: canonHost_def Let_def LL)
    with r show ?thesis by simp
  qed
qed

lemma canonPath_stable:
  assumes "\<not> (endsWith p ''//'' \<and> length p > 2)"
    and "endsWith p ''/''" "length p > 1"
  shows "\<not> (endsWith (butlast p) ''/'' \<and> length (butlast p) > 1)"
    and "\<not> startsWith (butlast p) ''/'' \<Longrightarrow> \<not> endsWith (CHR ''/'' # butlast p) ''/''"
proof -
  obtain q where p: "p = q @ ''/''"
    using assms(2,3) by (cases p rule: rev_cases) (auto simp: endsWith_def)
  have q: "butlast p = q" by (simp add: p)
  show "\<not> (endsWith (butlast p) ''/'' \<and> length (butlast p) > 1)"
  proof
    assume a: "endsWith (butlast p) ''/'' \<and> length (butlast p) > 1"
    then obtain q' where "q = q' @ ''/''"
      unfolding q by (cases q rule: rev_cases) (auto simp: endsWith_def)
    with a assms(1) show False by (simp add: p endsWith_def)
  qed
  show "\<not> endsWith (CHR ''/'' # butlast p) ''/''" if ns: "\<not> startsWith (butlast p) ''/''"
  proof
    assume a: "endsWith (CHR ''/'' # butlast p) ''/''"
    have "q \<noteq> []" using assms(3) p by auto
    with a obtain q' where q': "q = q' @ ''/''"
      unfolding q by (cases q rule: rev_cases) (auto simp: endsWith_def)
    with ns have "q' \<noteq> []" by (auto simp: q startsWith_def)
    with q' assms(1) show False by (simp add: p endsWith_def)
  qed
qed

lemma canonHost_Nil_iff:
  assumes bl
  shows "canonHost op sp bl h = [] \<longleftrightarrow> h = []"
proof (cases "h = []")
  case True
  then show ?thesis using assms by (simp add: canonHost_def startsWith_def toLowerCase_Nil)
next
  case False
  define h4 where "h4 = (if startsWith h ''www.'' \<and> \<not> op \<and> \<not> (drop 4 h = '''' \<and> bl)
                then (if sp then toLowerAscii (drop 4 h) else drop 4 h) else h)"
  have "h4 \<noteq> []" using False assms by (simp add: h4_def toLowerAscii_Nil_iff)
  moreover have "canonHost op sp bl h =
     (if \<not> op \<and> \<not> (toLowerCase h4 = '''' \<and> bl)
      then (if sp then toLowerAscii (toLowerCase h4) else toLowerCase h4) else h4)"
    by (simp add: canonHost_def Let_def h4_def)
  ultimately show ?thesis using False
    by (simp add: toLowerCase_Nil_iff toLowerAscii_Nil_iff)
qed

lemma set_protocol_https_canon:
  "scheme (set_protocol_https (canonicalizeParsed v)) = scheme (set_protocol_https v)"
  "port (set_protocol_https (canonicalizeParsed v)) = port (set_protocol_https v)"
proof -
  let ?c = "canonicalizeParsed v"
  have "scheme (set_protocol_https ?c) = scheme (set_protocol_https v)
          \<and> port (set_protocol_https ?c) = port (set_protocol_https v)"
  proof (cases "isSpecial v")
    case False
    then show ?thesis by (simp add: set_protocol_https_def sel_canon)
  next
    case True
    then have hostNil: "hostname ?c = [] \<longleftrightarrow> hostname v = []"
      by (simp add: hostname_canon canonHost_Nil_iff)
    show ?thesis
    proof (cases "scheme v = ''file'' \<and> hostname v = ''''")
      case T2: True
      with True hostNil show ?thesis by (simp add: set_protocol_https_def sel_canon)
    next
      case False
      have s: "scheme ?c = ''https''" and p: "port ?c = (if port v = Some 443 then None else port v)"
        using True False by (auto simp: sel_canon set_protocol_https_def)
      have sc: "isSpecial ?c" using True by (simp add: sel_canon)
      have "scheme (set_protocol_https ?c) = ''https''"
        using sc s by (simp add: set_protocol_https_def)
      moreover have "port (set_protocol_https ?c) = port ?c"
        using sc s p by (simp add: set_protocol_https_def)
      ultimately show ?thesis using s by (simp add: sel_canon)
    qed
  qed
  then show "scheme (set_protocol_https ?c) = scheme (set_protocol_https v)"
    and "port (set_protocol_https ?c) = port (set_protocol_https v)" by simp_all
qed

lemma canonicalizeParsed_idem:
  assumes "\<not> (endsWith (pathname v) ''//'' \<and> length (pathname v) > 2)"
    and "\<not> startsWith (toLowerCase (if startsWith (hostname v) ''www.'' then drop 4 (hostname v) else hostname v)) ''www.''"
  shows "canonicalizeParsed (canonicalizeParsed v) = canonicalizeParsed v"
proof (rule URL.equality)
  let ?c = "canonicalizeParsed v"
  note sp = set_protocol_https_canon [of v]
  show "scheme (canonicalizeParsed ?c) = scheme ?c" using sp by (simp add: sel_canon)
  show "port (canonicalizeParsed ?c) = port ?c" using sp by (simp add: sel_canon)
  show "username (canonicalizeParsed ?c) = username ?c" by (simp add: sel_canon)
  show "password (canonicalizeParsed ?c) = password ?c" by (simp add: sel_canon)
  show "opaquePath (canonicalizeParsed ?c) = opaquePath ?c" by (simp add: sel_canon)
  show "hash (canonicalizeParsed ?c) = hash ?c" by (simp add: sel_canon)
  show "URL.more (canonicalizeParsed ?c) = URL.more ?c" by (simp add: sel_canon)
  show "searchParams (canonicalizeParsed ?c) = searchParams ?c" by (simp add: sel_canon)
  show "hostname (canonicalizeParsed ?c) = hostname ?c"
    using sp canonHost_idem [OF assms(2)] by (simp add: hostname_canon sel_canon)
  show "pathname (canonicalizeParsed ?c) = pathname ?c"
  proof (cases "endsWith (pathname v) ''/'' \<and> length (pathname v) > 1 \<and> \<not> opaquePath v")
    case False
    then have e: "pathname ?c = pathname v" by (auto simp: pathname_canon [of v])
    from False show ?thesis unfolding pathname_canon [of ?c] e sel_canon by auto
  next
    case True
    note st = canonPath_stable [OF assms(1), of ]
    show ?thesis
    proof (cases "startsWith (butlast (pathname v)) ''/''")
      case T2: True
      with True have e: "pathname ?c = butlast (pathname v)" by (simp add: pathname_canon [of v])
      from True st(1) have "\<not> (endsWith (butlast (pathname v)) ''/'' \<and> length (butlast (pathname v)) > 1)"
        by blast
      then show ?thesis unfolding pathname_canon [of ?c] e by auto
    next
      case F2: False
      with True have e: "pathname ?c = CHR ''/'' # butlast (pathname v)" by (simp add: pathname_canon [of v])
      from True F2 st(2) have "\<not> endsWith (CHR ''/'' # butlast (pathname v)) ''/''"
        by blast
      then show ?thesis unfolding pathname_canon [of ?c] e by auto
    qed
  qed
qed

lemmas url_eval = canonicalizeUrl_def parsePlainUrl_def serializeUrl_def canonicalizeParsed_def
  searchParams_delete_def set_protocol_https_def set_pathname_def set_hostname_def
  trackingParams_def isSpecial_def specialSchemes_def includesCredentials_def
  startsWith_def endsWith_def toLowerCase_def toLowerAscii_def toLowerChar_def char_eval
  parsePlainQuery_def serializeParams_def urlencoded_def urlencodedByte_def utf8_def
  hexDigitUpper_def plainPathChar_def plainQueryChar_def
  plainHostChar_def isAlnum_def isDigit_def isLowerAlpha_def isUpperAlpha_def charCode_def Let_def

lemma canonicalizeParsed_eq:
  "canonicalizeParsed v =
     v\<lparr> scheme := scheme (set_protocol_https v),
        port := port (set_protocol_https v),
        hostname := canonHost (opaquePath v) (isSpecial v)
                      (isSpecial v \<or> includesCredentials v \<or> port (set_protocol_https v) \<noteq> None)
                      (hostname v),
        pathname := (if endsWith (pathname v) ''/'' \<and> length (pathname v) > 1 \<and> \<not> opaquePath v
                     then (if startsWith (butlast (pathname v)) ''/'' then butlast (pathname v)
                           else CHR ''/'' # butlast (pathname v))
                     else pathname v),
        searchParams := filter (\<lambda>(n, _). n \<notin> set trackingParams) (searchParams v) \<rparr>"
  by (rule URL.equality) (simp_all add: sel_canon pathname_canon hostname_canon)

text \<open>Evaluation of the plain parser, of the canonicalisation and of the serialiser.\<close>

lemmas char_class_eval = plainPathChar_def plainQueryChar_def plainHostChar_def isAlnum_def
  isDigit_def isLowerAlpha_def isUpperAlpha_def charCode_def toLowerCase_def toLowerAscii_def
  toLowerChar_def char_eval startsWith_def endsWith_def

lemmas parse_eval = parsePlainUrl_def parsePlainQuery_def plainUrl_def char_class_eval Let_def

lemmas canon_eval = canonicalizeParsed_eq canonHost_def plainUrl_def
  set_protocol_https_def trackingParams_def isSpecial_def
  specialSchemes_def includesCredentials_def char_class_eval Let_def

lemmas serialize_eval = serializeUrl_def plainUrl_def includesCredentials_def serializeParams_def
  urlencoded_def urlencodedByte_def utf8_def hexDigitUpper_def char_class_eval

lemma parse_slashes:
  "parsePlainUrl ''https://example.com/a//'' = Some (plainUrl ''https'' ''example.com'' ''/a//'' [])"
  "parsePlainUrl ''https://example.com/a/'' = Some (plainUrl ''https'' ''example.com'' ''/a/'' [])"
  by (simp_all add: parse_eval)

lemma canon_slashes:
  "canonicalizeParsed (plainUrl ''https'' ''example.com'' ''/a//'' [])
     = plainUrl ''https'' ''example.com'' ''/a/'' []"
  "canonicalizeParsed (plainUrl ''https'' ''example.com'' ''/a/'' [])
     = plainUrl ''https'' ''example.com'' ''/a'' []"
  by (simp_all add: canon_eval)

lemma serialize_slashes:
  "serializeUrl (plainUrl ''https'' ''example.com'' ''/a/'' []) = ''https://example.com/a/''"
  "serializeUrl (plainUrl ''https'' ''example.com'' ''/a'' []) = ''https://example.com/a''"
  by (simp_all add: serialize_eval)

lemma canonicalizeUrl_slashes:
  "canonicalizeUrl parsePlainUrl serializeUrl ''https://example.com/a//'' = ''https://example.com/a/''"
  "canonicalizeUrl parsePlainUrl serializeUrl ''https://example.com/a/'' = ''https://example.com/a''"
  by (simp_all add: canonicalizeUrl_def parse_slashes canon_slashes serialize_slashes)

lemma parse_article:
  "parsePlainUrl ''http://www.Example.com/Article/?utm_source=x&id=1''
     = Some (plainUrl ''http'' ''www.example.com'' ''/Article/'' [(''utm_source'', ''x''), (''id'', ''1'')])"
  "parsePlainUrl ''https://example.com/Article?id=1''
     = Some (plainUrl ''https'' ''example.com'' ''/Article'' [(''id'', ''1'')])"
  by (simp_all add: parse_eval)

lemma canon_article:
  "canonicalizeParsed (plainUrl ''http'' ''www.example.com'' ''/Article/'' [(''utm_source'', ''x''), (''id'', ''1'')])
     = plainUrl ''https'' ''example.com'' ''/Article'' [(''id'', ''1'')]"
  by (simp add: canon_eval)

lemma serialize_article:
  "serializeUrl (plainUrl ''https'' ''example.com'' ''/Article'' [(''id'', ''1'')])
     = ''https://example.com/Article?id=1''"
  by (simp add: serialize_eval)

section \<open>Lemmas on interest scoring\<close>

lemma parsePattern_plain:
  "c \<noteq> CHR 0x5C \<Longrightarrow> parsePattern (c # ys) = Literal c # parsePattern ys"
  by (cases ys) auto

lemma parsePattern_escapeRegex:
  "parsePattern (escapeRegex k @ rest) = map Literal k @ parsePattern rest"
proof (induction k)
  case Nil
  show ?case by (simp add: escapeRegex_def)
next
  case (Cons c k)
  have e: "escapeRegex (c # k) =
      (if c \<in> set ''.*+?^${}()|[]'' \<or> c = CHR 0x5C then [CHR 0x5C, c] else [c]) @ escapeRegex k"
    by (simp add: escapeRegex_def)
  show ?case
  proof (cases "c \<in> set ''.*+?^${}()|[]'' \<or> c = CHR 0x5C")
    case True
    then have "c \<noteq> CHR ''b''" by auto
    with True Cons.IH show ?thesis unfolding e by simp
  next
    case False
    then have "c \<noteq> CHR 0x5C" by simp
    with False Cons.IH show ?thesis unfolding e by (simp add: parsePattern_plain)
  qed
qed

lemma wordBoundaryRegex_atoms:
  "parsePattern ([CHR 0x5C, CHR ''b''] @ escapeRegex k @ [CHR 0x5C, CHR ''b''])
     = WordBoundary # map Literal k @ [WordBoundary]"
proof -
  have "parsePattern (escapeRegex k @ [CHR 0x5C, CHR ''b'']) = map Literal k @ [WordBoundary]"
    by (simp add: parsePattern_escapeRegex)
  then show ?thesis by simp
qed


lemma caseStable_normalizeText: "list_all caseStable (normalizeText s)"
  by (induction s)
     (auto simp: normalizeText_def caseStable_def toLowerCase_def toLowerChar_def isLowerAlpha_def
        isDigit_def isWhitespace_def charCode_def Let_def)

lemma matchHere_literals:
  "list_all caseStable kw \<Longrightarrow> list_all caseStable rest \<Longrightarrow>
   matchHere (map Literal kw @ r) prev rest =
     (if take (length kw) rest = kw
      then (case matchHere r (if kw = [] then prev else Some (last kw)) (drop (length kw) rest) of
              None \<Rightarrow> None
            | Some (m, prev', rest') \<Rightarrow> Some (kw @ m, prev', rest'))
      else None)"
proof (induction kw arbitrary: prev rest)
  case Nil
  show ?case by (auto split: option.splits)
next
  case (Cons c kw)
  show ?case
  proof (cases rest)
    case Nil
    then show ?thesis by simp
  next
    case (Cons d rest')
    have cd: "eqIgnoreCase c d \<longleftrightarrow> c = d"
      using Cons.prems Cons by (simp add: eqIgnoreCase_def caseStable_def)
    have ih: "matchHere (map Literal kw @ r) (Some d) rest' =
     (if take (length kw) rest' = kw
      then (case matchHere r (if kw = [] then Some d else Some (last kw)) (drop (length kw) rest') of
              None \<Rightarrow> None
            | Some (m, prev', rest'') \<Rightarrow> Some (kw @ m, prev', rest''))
      else None)"
      using Cons.prems Cons by (intro Cons.IH) auto
    show ?thesis
      unfolding Cons using cd ih by (auto split: option.splits)
  qed
qed

lemma matchHere_wordBoundaryRegex:
  assumes "list_all caseStable kw" "list_all caseStable rest"
  shows "matchHere (WordBoundary # map Literal kw @ [WordBoundary]) prev rest =
     (if occursHere kw prev rest
      then Some (kw, (if kw = [] then prev else Some (last kw)), drop (length kw) rest)
      else None)"
  using matchHere_literals [OF assms, of "[WordBoundary]" prev]
  by (simp add: occursHere_def)

lemma matchAll_count:
  "list_all caseStable kw \<Longrightarrow> list_all caseStable rest \<Longrightarrow>
   length (matchAll (WordBoundary # map Literal kw @ [WordBoundary]) prev rest)
     = countOccurrences kw prev rest"
proof (induction kw prev rest rule: countOccurrences.induct)
  case (1 kw prev rest)
  let ?rx = "WordBoundary # map Literal kw @ [WordBoundary]"
  note mh = matchHere_wordBoundaryRegex [OF "1.prems", of prev]
  have stable_tl: "list_all caseStable rest'" if "rest = d # rest'" for d rest'
    using "1.prems"(2) that by simp
  have stable_drop: "list_all caseStable (drop (length kw) rest)"
    using "1.prems"(2) by (simp add: list_all_iff) (meson in_set_dropD)
  show ?case
  proof (cases "occursHere kw prev rest")
    case False
    show ?thesis
    proof (cases rest)
      case Nil
      with False mh show ?thesis
        by (subst matchAll.simps, subst countOccurrences.simps) simp
    next
      case (Cons d rest')
      have "length (matchAll ?rx (Some d) rest') = countOccurrences kw (Some d) rest'"
        using False Cons "1.prems"(1) stable_tl [OF Cons] by (intro "1.IH"(3)) auto
      with False mh Cons show ?thesis
        by (subst matchAll.simps, subst countOccurrences.simps) simp
    qed
  next
    case True
    show ?thesis
    proof (cases "kw = []")
      case kwNil: True
      show ?thesis
      proof (cases rest)
        case Nil
        with True kwNil mh show ?thesis
          by (subst matchAll.simps, subst countOccurrences.simps) simp
      next
        case (Cons d rest')
        have "length (matchAll ?rx (Some d) rest') = countOccurrences kw (Some d) rest'"
          using True kwNil Cons "1.prems"(1) stable_tl [OF Cons] by (intro "1.IH"(1)) auto
        with True kwNil mh Cons show ?thesis
          by (subst matchAll.simps, subst countOccurrences.simps) simp
      qed
    next
      case False
      have "length (matchAll ?rx (Some (last kw)) (drop (length kw) rest))
              = countOccurrences kw (Some (last kw)) (drop (length kw) rest)"
        using True False "1.prems"(1) stable_drop by (intro "1.IH"(2)) auto
      with True False mh show ?thesis
        by (subst matchAll.simps, subst countOccurrences.simps) simp
    qed
  qed
qed

lemma scoreKeyword_formula:
  "scoreKeyword keyword text
     = min 10 (2 * int (countOccurrences (normalizeText keyword) None (normalizeText text)))"
proof -
  let ?kw = "normalizeText keyword" and ?t = "normalizeText text"
  let ?ms = "matchAll (WordBoundary # map Literal ?kw @ [WordBoundary]) None ?t"
  have len: "length ?ms = countOccurrences ?kw None ?t"
    by (rule matchAll_count) (rule caseStable_normalizeText)+
  have "scoreKeyword keyword text = (if ?ms = [] then 0 else min 10 (int (length ?ms) * 2))"
    unfolding scoreKeyword_def Let_def wordBoundaryRegex_atoms by (rule refl)
  also have "\<dots> = min 10 (2 * int (length ?ms))"
    by (cases ?ms) (simp_all del: matchAll.simps)
  finally show ?thesis by (simp only: len)
qed

lemma scoreKeyword_nonneg: "0 \<le> scoreKeyword k t"
  by (simp add: scoreKeyword_formula)

lemma scoreKeyword_le_10: "scoreKeyword k t \<le> 10"
  by (simp add: scoreKeyword_formula)

lemma keywordLoop_fst:
  "fst (keywordLoop blob ks (ts, mk)) = ts + (\<Sum>k \<leftarrow> ks. scoreKeyword k blob)"
proof (induction ks arbitrary: ts mk)
  case Nil
  show ?case by simp
next
  case (Cons k ks)
  show ?case
  proof (cases "scoreKeyword k blob > 0")
    case True
    then show ?thesis by (simp add: Cons.IH Let_def)
  next
    case False
    with scoreKeyword_nonneg [of k blob] have "scoreKeyword k blob = 0" by simp
    then show ?thesis by (simp add: Cons.IH Let_def)
  qed
qed

lemma topicScore_spec_nonneg: "0 \<le> topicScore_spec blob topic"
  unfolding topicScore_spec_def by (rule sum_list_nonneg) (auto simp: scoreKeyword_nonneg)

lemma topicLoop_result:
  "fst (topicLoop blob interests (tot, mt, mk))
      = tot + (\<Sum>(n, t) \<leftarrow> interests. topicScore_spec blob t)
   \<and> fst (snd (topicLoop blob interests (tot, mt, mk)))
      = mt @ map fst (filter (\<lambda>(n, t). topicScore_spec blob t > 0) interests)"
proof (induction interests arbitrary: tot mt mk)
  case Nil
  show ?case by simp
next
  case (Cons e interests)
  obtain n t where e: "e = (n, t)" by (cases e)
  obtain ts mk' where kl: "keywordLoop blob (topicKeywords t) (0, mk) = (ts, mk')"
    by (cases "keywordLoop blob (topicKeywords t) (0, mk)")
  have ts: "ts = topicScore_spec blob t"
    using keywordLoop_fst [of blob "topicKeywords t" 0 mk] kl by (simp add: topicScore_spec_def)
  show ?case
  proof (cases "ts > 0")
    case True
    with Cons.IH [of "tot + ts" "mt @ [n]" mk'] kl ts show ?thesis by (simp add: e)
  next
    case False
    with topicScore_spec_nonneg [of blob t] ts have z: "topicScore_spec blob t = 0" by simp
    with Cons.IH [of tot mt mk'] kl ts False show ?thesis by (simp add: e)
  qed
qed

lemma calculateRecencyScore_None: "calculateRecencyScore fl now None = Num 0"
  by (simp add: calculateRecencyScore_def)

lemma calculateRecencyScore_Invalid: "calculateRecencyScore fl now (Some InvalidDate) = NaN"
  by (simp add: calculateRecencyScore_def)

lemma calculateRecencyScore_Valid:
  "calculateRecencyScore fl now (Some (ValidDate t)) =
     (let ageHours = fl (fl (real_of_int now - real_of_int t) / 3600000)
      in if ageHours \<le> 6 then Num 100 else if ageHours \<ge> 72 then Num 0
         else Num (max 0 (fl (100 - fl (fl (ageHours - 6) * fl (100 / 66))))))"
  by (simp add: calculateRecencyScore_def Let_def)

lemma calculateRecencyScore_exact:
  "calculateRecencyScore (\<lambda>x. x) now (Some (ValidDate t)) =
     (let ageHours = real_of_int (now - t) / 3600000
      in if ageHours \<le> 6 then Num 100 else if ageHours \<ge> 72 then Num 0
         else Num (100 - (ageHours - 6) * (100 / 66)))"
proof -
  have "max 0 (100 - (a - 6) * (100 / 66)) = 100 - (a - 6) * (100 / 66)" if "a < 72" for a :: real
    using that by (simp add: field_simps)
  then show ?thesis
    by (auto simp: calculateRecencyScore_Valid Let_def not_le)
qed

lemma calculateRecencyScore_Num:
  assumes "d \<noteq> Some InvalidDate"
  shows "\<exists>r. calculateRecencyScore fl now d = Num r"
proof (cases d)
  case None
  then show ?thesis by (simp add: calculateRecencyScore_None)
next
  case (Some x)
  with assms obtain t where "x = ValidDate t" by (cases x) auto
  with Some show ?thesis by (simp add: calculateRecencyScore_Valid Let_def)
qed

lemma scoreFeedItem_fields:
  "score (scoreFeedItem fl now item interests)
     = js_add fl (Num (real_of_int (\<Sum>(n, t) \<leftarrow> interests. topicScore_spec (textToSearch_of item) t)))
         (js_mul fl (calculateRecencyScore fl now (pubDate item)) (Num (fl 0.2)))"
  "matchedTopics (scoreFeedItem fl now item interests)
     = map fst (filter (\<lambda>(n, t). topicScore_spec (textToSearch_of item) t > 0) interests)"
  "recencyScore (scoreFeedItem fl now item interests) = calculateRecencyScore fl now (pubDate item)"
  "pubDate (scoreFeedItem fl now item interests) = pubDate item"
  using topicLoop_result [of "textToSearch_of item" interests 0 "[]" "[]"]
  by (auto simp: scoreFeedItem_def Let_def split: prod.splits)


lemma sortBy_sort_key:
  fixes key :: "'a \<Rightarrow> 'k :: linorder"
  assumes "\<And>x y. cmp x y \<le> 0 \<longleftrightarrow> key x \<le> key y"
  shows "sortBy cmp xs = sort_key key xs"
proof -
  have "insertBy cmp x ys = insort_key key x ys" for x ys
    by (induction ys) (simp_all add: assms)
  then have "insertBy cmp = insort_key key" by (intro ext)
  then show ?thesis by (simp add: sortBy_def sort_key_def)
qed



lemma sum_positive_topics:
  "(\<Sum>(n, t) \<leftarrow> filter (\<lambda>(n, t). topicScore_spec blob t > 0) interests. topicScore_spec blob t)
     = (\<Sum>(n, t) \<leftarrow> interests. topicScore_spec blob t)"
proof (induction interests)
  case Nil
  show ?case by simp
next
  case (Cons e interests)
  obtain n t where e: "e = (n, t)" by (cases e)
  from topicScore_spec_nonneg [of blob t] Cons show ?case
    by (cases "topicScore_spec blob t > 0") (simp_all add: e)
qed


lemmas score_eval = scoreKeyword_def normalizeText_def escapeRegex_def isWordBoundary_def
  isWordChar_def eqIgnoreCase_def isWhitespace_def isAlnum_def isDigit_def isLowerAlpha_def
  isUpperAlpha_def charCode_def toLowerCase_def toLowerChar_def char_eval Let_def

lemma scoreKeyword_examples:
  "scoreKeyword ''apple'' ''Apple announces iPhone'' = 2"
  "scoreKeyword ''apple'' ''Apple Apple Apple Apple Apple Apple'' = 10"
  "scoreKeyword ''ai'' ''training data'' = 0"
  "scoreKeyword ''model context protocol'' ''The model context protocol is new'' = 2"
  by (simp_all add: score_eval)

lemma scoreKeyword_apple_items:
  "scoreKeyword ''apple'' ''Apple announces new iPhone 16'' = 2"
  "scoreKeyword ''iphone'' ''Apple announces new iPhone 16'' = 2"
  "scoreKeyword ''apple'' ''Weather forecast for today'' = 0"
  "scoreKeyword ''iphone'' ''Weather forecast for today'' = 0"
  "scoreKeyword ''apple'' ''Apple'' = 2"
  "scoreKeyword ''iphone'' ''Apple'' = 0"
  by (simp_all add: score_eval)





lemma recency_at_zero: "calculateRecencyScore (\<lambda>x. x) 0 (Some (ValidDate 0)) = Num 100"
  by (simp add: calculateRecencyScore_def)





section \<open>Lemmas on the fallback ranking and the fallback summaries\<close>

lemma floor_fifth: "nat \<lfloor>real n * 0.2\<rfloor> = n div 5"
proof -
  have "real n * 0.2 = real n / real 5" by simp
  then show ?thesis by (simp only: floor_divide_of_nat_eq nat_int)
qed

lemma floor_three_tenths: "nat \<lfloor>real n * 0.3\<rfloor> = (3 * n) div 10"
proof -
  have "real n * 0.3 = real (3 * n) / real 10" by simp
  then show ?thesis by (simp only: floor_divide_of_nat_eq nat_int)
qed


lemma compareArticles_key: "compareArticles a b \<le> 0 \<longleftrightarrow> rankKey a \<le> rankKey b"
  by (auto simp: compareArticles_def rankKey_def less_eq_prod_def)

lemma sortBy_compareArticles: "sortBy compareArticles xs = sort_key rankKey xs"
  by (rule sortBy_sort_key) (rule compareArticles_key)

lemma sorted_rank:
  "sorted_wrt (\<lambda>a b. (isManualSave a \<and> \<not> isManualSave b)
                     \<or> (isManualSave a = isManualSave b \<and> topicCount a \<ge> topicCount b))
     (sortBy compareArticles xs)"
proof -
  have "sorted (map rankKey (sort_key rankKey xs))" by (rule sorted_sort_key)
  then have "sorted_wrt (\<lambda>a b. rankKey a \<le> rankKey b) (sortBy compareArticles xs)"
    by (simp add: sorted_map sortBy_compareArticles)
  then show ?thesis
    by (rule sorted_wrt_mono_rel [rotated]) (auto simp: rankKey_def less_eq_prod_def split: if_splits)
qed


lemma setEntry_snoc:
  "foldl (setEntry k v) m (zip [0 ..< length (xs @ [x])] (xs @ [x]))
     = (foldl (setEntry k v) m (zip [0 ..< length xs] xs))(k x \<mapsto> v (length xs) x)"
  by (simp add: setEntry_def)

lemma setEntry_lookup:
  assumes "distinct (map k xs)" "i < length xs"
  shows "foldl (setEntry k v) Map.empty (zip [0 ..< length xs] xs) (k (xs ! i)) = Some (v i (xs ! i))"
  using assms
proof (induction xs rule: rev_induct)
  case Nil
  then show ?case by simp
next
  case (snoc x xs)
  show ?case
  proof (cases "i < length xs")
    case True
    then have "k (xs ! i) \<in> k ` set xs" by simp
    then have "k (xs ! i) \<noteq> k x" using snoc.prems(1) by auto
    with True snoc show ?thesis unfolding setEntry_snoc by (simp add: nth_append)
  next
    case False
    with snoc.prems have "i = length xs" by simp
    then show ?thesis unfolding setEntry_snoc by simp
  qed
qed

lemma setEntry_dom:
  "dom (foldl (setEntry k v) Map.empty (zip [0 ..< length xs] xs)) = k ` set xs"
proof (induction xs rule: rev_induct)
  case Nil
  show ?case by simp
next
  case (snoc x xs)
  show ?case unfolding setEntry_snoc dom_fun_upd using snoc by simp
qed

lemma applyFallbackRanking_sorted:
  assumes "articles \<noteq> []"
  shows "applyFallbackRanking articles =
     foldl (setEntry art_id (\<lambda>index article.
              \<lparr> tier = tierOfIndex (max 1 (length articles div 5)) (max 2 ((3 * length articles) div 10)) index,
                tierReason = ''Keyword-based fallback ranking'' \<rparr>))
       Map.empty (zip [0 ..< length (sortBy compareArticles articles)] (sortBy compareArticles articles))"
proof -
  have len: "length (sortBy compareArticles articles) = length articles"
    by (simp add: sortBy_compareArticles)
  have f: "(\<lambda>results (index, article). results(art_id article \<mapsto> w index article))
             = setEntry art_id w" for w :: "nat \<Rightarrow> ArticleForRanking \<Rightarrow> Ranking"
    by (intro ext) (simp add: setEntry_def split: prod.splits)
  show ?thesis
    using assms unfolding applyFallbackRanking_def Let_def floor_fifth floor_three_tenths f len
    by simp
qed

lemma sortBy_rankingTestArticles:
  "sortBy compareArticles rankingTestArticles =
     [createArticle ''saved1'' True None ''Excerpt'',
      createArticle ''rss2'' False (Some [''topic1'']) ''Excerpt'',
      createArticle ''rss1'' False None ''Excerpt'']"
  by (simp add: sortBy_def rankingTestArticles_def compareArticles_def topicCount_def
        createArticle_def)

lemma putEntry_lookup:
  assumes "distinct (map k xs)" "x \<in> set xs"
  shows "foldl (putEntry k v) m xs (k x) = Some (v x)"
  using assms
proof (induction xs rule: rev_induct)
  case Nil
  then show ?case by simp
next
  case (snoc y xs)
  show ?case
  proof (cases "x = y")
    case True
    then show ?thesis by (simp add: putEntry_def)
  next
    case False
    with snoc.prems have m: "x \<in> set xs" by auto
    then have "k x \<in> k ` set xs" by simp
    with snoc.prems have "k x \<noteq> k y" by auto
    with m snoc show ?thesis by (simp add: putEntry_def)
  qed
qed

lemma putEntry_find_last:
  "foldl (putEntry k v) m xs key
     = (case find (\<lambda>x. k x = key) (rev xs) of None \<Rightarrow> m key | Some x \<Rightarrow> Some (v x))"
proof (induction xs rule: rev_induct)
  case Nil
  show ?case by simp
next
  case (snoc y xs)
  have step: "foldl (putEntry k v) m (xs @ [y]) = (foldl (putEntry k v) m xs)(k y \<mapsto> v y)"
    by (simp add: putEntry_def)
  show ?case
  proof (cases "k y = key")
    case True
    then show ?thesis unfolding step by simp
  next
    case False
    then show ?thesis unfolding step using snoc.IH by simp
  qed
qed

lemma find_SomeD: "find P xs = Some y \<Longrightarrow> y \<in> set xs \<and> P y"
  by (induction xs) (auto split: if_splits)

lemma find_last_unique:
  assumes "distinct (map k xs)" "x \<in> set xs"
  shows "find (\<lambda>y. k y = k x) (rev xs) = Some x"
proof -
  have "\<exists>y. find (\<lambda>y. k y = k x) (rev xs) = Some y"
    using assms(2) by (cases "find (\<lambda>y. k y = k x) (rev xs)") (auto simp: find_None_iff)
  then obtain y where y: "find (\<lambda>y. k y = k x) (rev xs) = Some y" by blast
  then have "y \<in> set xs" "k y = k x"
    by (auto dest: find_SomeD)
  with assms have "y = x" by (meson distinct_map inj_onD)
  with y show ?thesis by simp
qed

lemma generateFallbackSummaries_putEntry:
  "generateFallbackSummaries articles =
     foldl (putEntry (art_id \<circ> fst)
              (\<lambda>e. \<lparr> summary = take (if snd e = critical then 400 else 150) (art_excerpt (fst e)) @ ''...'',
                     oneLiner = Some (art_title (fst e)) \<rparr>))
       Map.empty articles"
proof -
  have f: "(\<lambda>results (article, t).
              results(art_id article \<mapsto>
                \<lparr> summary = take (if t = critical then 400 else 150) (art_excerpt article) @ ''...'',
                  oneLiner = Some (art_title article) \<rparr>))
        = putEntry (art_id \<circ> fst)
              (\<lambda>e. \<lparr> summary = take (if snd e = critical then 400 else 150) (art_excerpt (fst e)) @ ''...'',
                     oneLiner = Some (art_title (fst e)) \<rparr>)"
    by (intro ext) (simp add: putEntry_def split: prod.splits)
  show ?thesis unfolding generateFallbackSummaries_def f by (rule refl)
qed

section \<open>Lemmas on the content fingerprint\<close>

lemma length_hex32: "length (hex32 w) = 8"
  by (simp add: hex32_def)

lemma isHexLower_hexDigit: "isHexLower (hexDigit n)"
proof -
  have "n mod 16 < length ''0123456789abcdef''" by simp
  then have "''0123456789abcdef'' ! (n mod 16) \<in> set ''0123456789abcdef''"
    by (rule nth_mem)
  then show ?thesis by (simp only: isHexLower_def hexDigit_def)
qed

lemma hex32_isHexLower: "list_all isHexLower (hex32 w)"
  by (simp add: hex32_def isHexLower_hexDigit)

lemma length_sha256_hex: "length (sha256_hex bytes) = 64"
proof -
  obtain a b c d e f g h where "sha256_blocks sha256_H0 (sha256_pad bytes) = (a, b, c, d, e, f, g, h)"
    by (metis prod_cases7 prod_cases3)
  then show ?thesis by (simp add: sha256_hex_def length_hex32)
qed

lemma sha256_hex_isHexLower: "list_all isHexLower (sha256_hex bytes)"
proof -
  obtain a b c d e f g h where "sha256_blocks sha256_H0 (sha256_pad bytes) = (a, b, c, d, e, f, g, h)"
    by (metis prod_cases7 prod_cases3)
  then show ?thesis by (simp add: sha256_hex_def hex32_isHexLower)
qed

lemma list_all_take: "list_all P xs \<Longrightarrow> list_all P (take n xs)"
  by (simp add: list_all_iff) (meson in_set_takeD)

lemma toLowerChar_whitespace: "isWhitespace c \<Longrightarrow> toLowerChar c = c"
  by (auto simp: isWhitespace_def toLowerChar_def charCode_def Let_def)

lemma toLowerCase_whitespace: "list_all isWhitespace w \<Longrightarrow> toLowerCase w = w"
  by (induction w) (simp_all add: toLowerCase_def toLowerChar_whitespace)

lemma toLowerCase_append: "toLowerCase (a @ b) = toLowerCase a @ toLowerCase b"
  by (simp add: toLowerCase_def)

lemma dropWhile_whitespace_run:
  "list_all isWhitespace w \<Longrightarrow> dropWhile isWhitespace (w @ b) = dropWhile isWhitespace b"
  by (induction w) simp_all

lemma collapseWhitespace_run_start:
  assumes "w \<noteq> []" "list_all isWhitespace w"
  shows "collapseWhitespace (w @ b) = CHR '' '' # collapseWhitespace (dropWhile isWhitespace b)"
proof -
  from assms obtain c w0 where w: "w = c # w0" "isWhitespace c" "list_all isWhitespace w0"
    by (cases w) auto
  then show ?thesis by (simp add: dropWhile_whitespace_run)
qed

lemma collapseWhitespace_run:
  assumes "w \<noteq> []" "list_all isWhitespace w" "w' \<noteq> []" "list_all isWhitespace w'"
  shows "collapseWhitespace (a @ w @ b) = collapseWhitespace (a @ w' @ b)"
proof (induction a rule: collapseWhitespace.induct)
  case 1
  show ?case
    by (simp only: append_Nil collapseWhitespace_run_start [OF assms(1,2)]
          collapseWhitespace_run_start [OF assms(3,4)])
next
  case (2 c cs)
  show ?case
  proof (cases "isWhitespace c")
    case False
    with 2 show ?thesis by simp
  next
    case True
    show ?thesis
    proof (cases "list_all isWhitespace cs")
      case allws: True
      have "dropWhile isWhitespace (cs @ w @ b) = dropWhile isWhitespace b"
           "dropWhile isWhitespace (cs @ w' @ b) = dropWhile isWhitespace b"
        using allws assms(2,4) by (simp_all add: dropWhile_whitespace_run)
      with True show ?thesis by simp
    next
      case False
      then obtain x where x: "x \<in> set cs" "\<not> isWhitespace x"
        by (auto simp: list_all_iff)
      then have d: "dropWhile isWhitespace (cs @ ys) = dropWhile isWhitespace cs @ ys" for ys
        by (simp add: dropWhile_append1)
      from 2(1) [OF True] True show ?thesis by (simp add: d)
    qed
  qed
qed

lemma computeContentHash_lower: "computeContentHash (toLowerCase s) = computeContentHash s"
  by (simp add: computeContentHash_def normalizeContent_def toLowerCase_idem)

lemma computeContentHash_run:
  assumes "w \<noteq> []" "list_all isWhitespace w" "w' \<noteq> []" "list_all isWhitespace w'"
  shows "computeContentHash (a @ w @ b) = computeContentHash (a @ w' @ b)"
proof -
  have "collapseWhitespace (toLowerCase (a @ w @ b)) = collapseWhitespace (toLowerCase (a @ w' @ b))"
    unfolding toLowerCase_append toLowerCase_whitespace [OF assms(2)] toLowerCase_whitespace [OF assms(4)]
    using assms by (rule collapseWhitespace_run)
  then show ?thesis by (simp add: computeContentHash_def normalizeContent_def)
qed

lemma normalizeContent_hello:
  "normalizeContent ''Hello   World'' = ''hello world''"
  "normalizeContent ''hello world'' = ''hello world''"
  by (simp_all add: normalizeContent_def trim_def toLowerCase_def toLowerChar_def isWhitespace_def
        charCode_def char_eval)

lemma wordsOf_Nil: "wordsOf [] = []"
  by (subst wordsOf.simps) simp

lemma wordsOf_all_whitespace:
  assumes "list_all isWhitespace w"
  shows "wordsOf w = []"
proof -
  have "dropWhile isWhitespace w = []"
    using dropWhile_whitespace_run [OF assms, of "[]"] by simp
  then show ?thesis by (subst wordsOf.simps) (simp only: list.case)
qed

lemma wordsOf_dropWhile: "wordsOf (dropWhile isWhitespace s) = wordsOf s"
  by (subst wordsOf.simps, subst (2) wordsOf.simps) simp

lemma wordsOf_leading: "list_all isWhitespace w \<Longrightarrow> wordsOf (w @ s) = wordsOf s"
  using wordsOf_dropWhile [of "w @ s"] wordsOf_dropWhile [of s]
  by (simp add: dropWhile_whitespace_run)

lemma wordsOf_word:
  assumes "\<not> isWhitespace c"
  shows "wordsOf (c # cs) = takeWhile (\<lambda>x. \<not> isWhitespace x) (c # cs)
           # wordsOf (dropWhile (\<lambda>x. \<not> isWhitespace x) cs)"
  using assms by (subst wordsOf.simps) simp

lemma collapseWhitespace_word:
  "\<forall>x \<in> set w. \<not> isWhitespace x \<Longrightarrow> collapseWhitespace (w @ r) = w @ collapseWhitespace r"
  by (induction w) simp_all

lemma collapseWhitespace_no_lead:
  "t = [] \<or> \<not> isWhitespace (hd t) \<Longrightarrow> dropWhile isWhitespace (collapseWhitespace t) = collapseWhitespace t"
  by (cases t) auto

lemma dropWhile_no_lead: "dropWhile P s = [] \<or> \<not> P (hd (dropWhile P s))"
  using hd_dropWhile [of P s] by blast

lemma lstrip_collapseWhitespace:
  "dropWhile isWhitespace (collapseWhitespace s) = collapseWhitespace (dropWhile isWhitespace s)"
proof (cases s)
  case Nil
  then show ?thesis by simp
next
  case (Cons c cs)
  show ?thesis
  proof (cases "isWhitespace c")
    case True
    have sp: "isWhitespace (CHR '' '')" by (simp add: isWhitespace_def charCode_def)
    from True sp show ?thesis
      unfolding Cons
      using collapseWhitespace_no_lead [OF dropWhile_no_lead [of isWhitespace cs]] by simp
  next
    case False
    then show ?thesis unfolding Cons by simp
  qed
qed

lemma rstrip_append:
  assumes "rstrip b \<noteq> []"
  shows "rstrip (a @ b) = a @ rstrip b"
proof -
  from assms have "dropWhile isWhitespace (rev b) \<noteq> []" by (simp add: rstrip_def)
  then obtain x where "x \<in> set (rev b)" "\<not> isWhitespace x"
    by (auto simp: dropWhile_eq_Nil_conv)
  then have "dropWhile isWhitespace (rev b @ rev a) = dropWhile isWhitespace (rev b) @ rev a"
    by (intro dropWhile_append1)
  then show ?thesis by (simp add: rstrip_def)
qed

lemma rstrip_whitespace: "list_all isWhitespace b \<Longrightarrow> rstrip (a @ b) = rstrip a"
  using dropWhile_whitespace_run [of "rev b" "rev a"] by (simp add: rstrip_def list_all_iff)

lemma rstrip_word: "w \<noteq> [] \<Longrightarrow> \<not> isWhitespace (last w) \<Longrightarrow> rstrip w = w"
  by (cases "rev w") (auto simp: rstrip_def last_rev [symmetric] simp del: last_rev)

lemma joinWith_Cons: "ws \<noteq> [] \<Longrightarrow> joinWith sep (w # ws) = w @ sep @ joinWith sep ws"
  by (cases ws) simp_all

lemma joinWith_nonempty: "w \<noteq> [] \<Longrightarrow> joinWith sep (w # ws) \<noteq> []"
  by (cases ws) simp_all

lemma takeWhile_dropWhile_word:
  assumes "\<not> isWhitespace c"
  shows "takeWhile (\<lambda>x. \<not> isWhitespace x) (c # cs) \<noteq> []"
    and "\<not> isWhitespace (last (takeWhile (\<lambda>x. \<not> isWhitespace x) (c # cs)))"
    and "\<forall>x \<in> set (takeWhile (\<lambda>x. \<not> isWhitespace x) (c # cs)). \<not> isWhitespace x"
proof -
  let ?w = "takeWhile (\<lambda>x. \<not> isWhitespace x) (c # cs)"
  show n: "?w \<noteq> []" using assms by simp
  show a: "\<forall>x \<in> set ?w. \<not> isWhitespace x" by (auto dest: set_takeWhileD)
  from n have "last ?w \<in> set ?w" by (rule last_in_set)
  with a show "\<not> isWhitespace (last ?w)" by blast
qed

lemma rstrip_collapseWhitespace:
  "t = [] \<or> \<not> isWhitespace (hd t) \<Longrightarrow> rstrip (collapseWhitespace t) = joinWith '' '' (wordsOf t)"
proof (induction "length t" arbitrary: t rule: less_induct)
  case less
  show ?case
  proof (cases t)
    case Nil
    then show ?thesis by (simp add: wordsOf_Nil rstrip_def)
  next
    case (Cons c cs)
    with less.prems have nw: "\<not> isWhitespace c" by simp
    let ?w = "takeWhile (\<lambda>x. \<not> isWhitespace x) t"
    let ?r = "dropWhile (\<lambda>x. \<not> isWhitespace x) t"
    note w = takeWhile_dropWhile_word [OF nw, of cs, folded Cons]
    have t: "t = ?w @ ?r" by simp
    have c1: "collapseWhitespace t = ?w @ collapseWhitespace ?r"
      using collapseWhitespace_word [OF w(3), of ?r] by simp
    have r': "?r = dropWhile (\<lambda>x. \<not> isWhitespace x) cs" using nw Cons by simp
    have w1: "wordsOf t = ?w # wordsOf ?r"
      using wordsOf_word [OF nw, of cs] by (simp add: Cons r' nw)
    show ?thesis
    proof (cases ?r)
      case Nil
      have "collapseWhitespace t = ?w" unfolding c1 Nil by simp
      moreover have "wordsOf t = [?w]" unfolding w1 Nil wordsOf_Nil by (rule refl)
      moreover have "rstrip ?w = ?w" by (rule rstrip_word [OF w(1,2)])
      ultimately show ?thesis by simp
    next
      case rc: (Cons d ds)
      then have d: "isWhitespace d" by (simp add: dropWhile_eq_Cons_conv)
      let ?t' = "dropWhile isWhitespace ?r"
      have t': "?t' = dropWhile isWhitespace ds" using d rc by simp
      have c2: "collapseWhitespace ?r = CHR '' '' # collapseWhitespace ?t'"
        using d unfolding rc t' [unfolded rc] by simp
      have w2: "wordsOf ?r = wordsOf ?t'" by (simp add: wordsOf_dropWhile)
      have len: "length ?t' < length t"
      proof -
        have "length ?t' \<le> length ?r" by (rule length_dropWhile_le)
        moreover have "length ?r \<le> length cs" unfolding r' by (rule length_dropWhile_le)
        ultimately show ?thesis by (simp add: Cons)
      qed
      have ih: "rstrip (collapseWhitespace ?t') = joinWith '' '' (wordsOf ?t')"
        using len dropWhile_no_lead [of isWhitespace ?r] by (rule less.hyps)
      show ?thesis
      proof (cases ?t')
        case Nil
        have sp: "list_all isWhitespace '' ''" by (simp add: isWhitespace_def charCode_def)
        have "rstrip (?w @ '' '') = ?w"
          using rstrip_whitespace [OF sp, of ?w] rstrip_word [OF w(1,2)] by simp
        then show ?thesis
          unfolding c1 c2 w1 w2 Nil by (simp add: wordsOf_Nil)
      next
        case tc: (Cons e es)
        then have e: "\<not> isWhitespace e" by (simp add: dropWhile_eq_Cons_conv)
        have w3: "wordsOf ?t' = takeWhile (\<lambda>x. \<not> isWhitespace x) (e # es)
                     # wordsOf (dropWhile (\<lambda>x. \<not> isWhitespace x) es)"
          unfolding tc by (rule wordsOf_word [OF e])
        have ne: "rstrip (collapseWhitespace ?t') \<noteq> []"
          unfolding ih w3 by (rule joinWith_nonempty) (use e in simp)
        have "rstrip (collapseWhitespace t) = (?w @ '' '') @ rstrip (collapseWhitespace ?t')"
          unfolding c1 c2 using rstrip_append [OF ne, of "?w @ '' ''"] by simp
        also have "\<dots> = ?w @ '' '' @ joinWith '' '' (wordsOf ?t')" by (simp add: ih)
        also have "\<dots> = joinWith '' '' (?w # wordsOf ?t')"
          by (rule joinWith_Cons [symmetric]) (simp add: w3)
        finally show ?thesis by (simp only: w1 w2)
      qed
    qed
  qed
qed

lemma trim_collapseWhitespace:
  "trim (collapseWhitespace s) = joinWith '' '' (wordsOf s)"
proof -
  have "trim (collapseWhitespace s) = rstrip (collapseWhitespace (dropWhile isWhitespace s))"
    by (simp add: trim_def rstrip_def lstrip_collapseWhitespace)
  also have "\<dots> = joinWith '' '' (wordsOf (dropWhile isWhitespace s))"
    by (rule rstrip_collapseWhitespace) (rule dropWhile_no_lead)
  finally show ?thesis by (simp add: wordsOf_dropWhile)
qed

lemma isWhitespace_toLowerChar: "isWhitespace (toLowerChar c) = isWhitespace c"
  by (auto simp: isWhitespace_def toLowerChar_def charCode_def Let_def)

lemma dropWhile_toLowerCase:
  "dropWhile isWhitespace (toLowerCase s) = toLowerCase (dropWhile isWhitespace s)"
  by (induction s) (simp_all add: toLowerCase_def isWhitespace_toLowerChar)

lemma dropWhile_word_toLowerCase:
  "dropWhile (\<lambda>x. \<not> isWhitespace x) (toLowerCase s) = toLowerCase (dropWhile (\<lambda>x. \<not> isWhitespace x) s)"
  by (induction s) (simp_all add: toLowerCase_def isWhitespace_toLowerChar)

lemma takeWhile_word_toLowerCase:
  "takeWhile (\<lambda>x. \<not> isWhitespace x) (toLowerCase s) = toLowerCase (takeWhile (\<lambda>x. \<not> isWhitespace x) s)"
  by (induction s) (simp_all add: toLowerCase_def isWhitespace_toLowerChar)

lemma wordsOf_toLowerCase: "wordsOf (toLowerCase s) = map toLowerCase (wordsOf s)"
proof (induction s rule: wordsOf.induct)
  case (1 s)
  show ?case
  proof (cases "dropWhile isWhitespace s")
    case Nil
    then have "dropWhile isWhitespace (toLowerCase s) = []"
      by (simp only: dropWhile_toLowerCase) (simp add: toLowerCase_def)
    with Nil show ?thesis
      by (subst wordsOf.simps, subst (2) wordsOf.simps) (simp only: list.case list.map)
  next
    case (Cons c cs)
    then have l: "dropWhile isWhitespace (toLowerCase s) = toLowerCase (c # cs)"
      by (simp only: dropWhile_toLowerCase)
    obtain c' cs' where c': "toLowerCase (c # cs) = c' # cs'" by (simp add: toLowerCase_def)
    have ih: "wordsOf (toLowerCase (dropWhile (\<lambda>x. \<not> isWhitespace x) (c # cs)))
               = map toLowerCase (wordsOf (dropWhile (\<lambda>x. \<not> isWhitespace x) (c # cs)))"
      using Cons by (rule "1.IH")
    have "wordsOf (toLowerCase s)
            = takeWhile (\<lambda>x. \<not> isWhitespace x) (toLowerCase (c # cs))
              # wordsOf (dropWhile (\<lambda>x. \<not> isWhitespace x) (toLowerCase (c # cs)))"
      by (subst wordsOf.simps) (simp only: l c' list.case)
    also have "\<dots> = toLowerCase (takeWhile (\<lambda>x. \<not> isWhitespace x) (c # cs))
              # map toLowerCase (wordsOf (dropWhile (\<lambda>x. \<not> isWhitespace x) (c # cs)))"
      by (simp only: takeWhile_word_toLowerCase dropWhile_word_toLowerCase ih)
    also have "\<dots> = map toLowerCase (wordsOf s)"
      by (subst (2) wordsOf.simps) (simp only: Cons list.case list.map)
    finally show ?thesis .
  qed
qed

lemma dropWhile_append_ex:
  "\<exists>x \<in> set xs. \<not> P x \<Longrightarrow> dropWhile P (xs @ ys) = dropWhile P xs @ ys"
  by (auto simp: dropWhile_append1)

lemma takeWhile_append_ex:
  "\<exists>x \<in> set xs. \<not> P x \<Longrightarrow> takeWhile P (xs @ ys) = takeWhile P xs"
  by (auto simp: takeWhile_append1)

lemma wordsOf_trailing:
  assumes "list_all isWhitespace w"
  shows "wordsOf (s @ w) = wordsOf s"
proof (induction s rule: wordsOf.induct)
  case (1 s)
  show ?case
  proof (cases "dropWhile isWhitespace s")
    case Nil
    then have "list_all isWhitespace s" by (simp add: list_all_iff)
    with assms have "list_all isWhitespace (s @ w)" by simp
    then have "wordsOf (s @ w) = []" by (rule wordsOf_all_whitespace)
    moreover have "wordsOf s = []" by (rule wordsOf_all_whitespace) fact
    ultimately show ?thesis by simp
  next
    case (Cons c cs)
    then have nw: "\<not> isWhitespace c" by (simp add: dropWhile_eq_Cons_conv)
    from Cons have "\<exists>x \<in> set s. \<not> isWhitespace x"
      by (metis dropWhile_eq_Nil_conv list.distinct(1))
    then have "dropWhile isWhitespace (s @ w) = dropWhile isWhitespace s @ w"
      by (rule dropWhile_append_ex)
    then have d: "dropWhile isWhitespace (s @ w) = (c # cs) @ w"
      by (simp only: Cons)
    let ?nw = "\<lambda>x. \<not> isWhitespace x"
    have ih: "wordsOf (dropWhile ?nw (c # cs) @ w) = wordsOf (dropWhile ?nw (c # cs))"
      using Cons by (rule "1.IH")
    have tk: "takeWhile ?nw ((c # cs) @ w) = takeWhile ?nw (c # cs)"
     and dr: "wordsOf (dropWhile ?nw ((c # cs) @ w)) = wordsOf (dropWhile ?nw (c # cs))"
    proof -
      show "takeWhile ?nw ((c # cs) @ w) = takeWhile ?nw (c # cs)"
      proof (cases "\<exists>x \<in> set (c # cs). isWhitespace x")
        case True
        then show ?thesis by (intro takeWhile_append_ex) simp
      next
        case False
        then have "takeWhile ?nw ((c # cs) @ w) = (c # cs) @ takeWhile ?nw w"
          by (intro takeWhile_append2) auto
        moreover have "takeWhile ?nw w = []" using assms by (cases w) auto
        moreover have "takeWhile ?nw (c # cs) = c # cs"
          using False by (simp only: takeWhile_eq_all_conv) auto
        ultimately show ?thesis by simp
      qed
      show "wordsOf (dropWhile ?nw ((c # cs) @ w)) = wordsOf (dropWhile ?nw (c # cs))"
      proof (cases "\<exists>x \<in> set (c # cs). isWhitespace x")
        case True
        then have "dropWhile ?nw ((c # cs) @ w) = dropWhile ?nw (c # cs) @ w"
          by (intro dropWhile_append_ex) simp
        with ih show ?thesis by simp
      next
        case False
        then have "dropWhile ?nw ((c # cs) @ w) = dropWhile ?nw w"
          by (intro dropWhile_append2) auto
        moreover have "dropWhile ?nw w = w" using assms by (cases w) auto
        moreover have "dropWhile ?nw (c # cs) = []" using False by auto
        ultimately show ?thesis
          using wordsOf_all_whitespace [OF assms] by (simp add: wordsOf_Nil)
      qed
    qed
    have "wordsOf (s @ w) = takeWhile ?nw ((c # cs) @ w) # wordsOf (dropWhile ?nw ((c # cs) @ w))"
      by (subst wordsOf.simps) (simp only: d append_Cons list.case)
    also have "\<dots> = takeWhile ?nw (c # cs) # wordsOf (dropWhile ?nw (c # cs))"
      by (simp only: tk dr)
    also have "\<dots> = wordsOf s"
      by (subst (2) wordsOf.simps) (simp only: Cons list.case)
    finally show ?thesis .
  qed
qed

lemma normalizeContent_words:
  "normalizeContent s = take 5000 (joinWith '' '' (map toLowerCase (wordsOf s)))"
  by (simp add: normalizeContent_def trim_collapseWhitespace wordsOf_toLowerCase)

text \<open>
  Two digests, computed step by step: padding, the sixteen words of the block, the
  message schedule, the 64 rounds and the final addition.
\<close>

lemma replicate_num: "replicate (numeral k) x = x # replicate (pred_numeral k) x"
  by (simp add: numeral_eq_Suc)
lemma utf8_hello: "utf8 ''hello world'' = [104, 101, 108, 108, 111, 32, 119, 111, 114, 108, 100]"
  by (simp add: utf8_def charCode_def)
lemma sha256_pad_hello:
  "sha256_pad [104, 101, 108, 108, 111, 32, 119, 111, 114, 108, 100] =
   [104, 101, 108, 108, 111, 32, 119, 111, 114, 108, 100, 128, 0, 0, 0, 0, 0,
  0, 0, 0, 0, 0, 0, 0, 0, 0, 0, 0, 0, 0, 0, 0, 0, 0, 0, 0, 0, 0, 0, 0, 0, 0,
  0, 0, 0, 0, 0, 0, 0, 0, 0, 0, 0, 0, 0, 0, 0, 0, 0, 0, 0, 0, 0, 88]"
  by (simp add: sha256_pad_def replicate_num)
lemma sha256_pad_empty:
  "sha256_pad [] = [128, 0, 0, 0, 0, 0, 0, 0, 0, 0, 0, 0, 0, 0, 0, 0, 0, 0, 0, 0, 0, 0, 0, 0,
  0, 0, 0, 0, 0, 0, 0, 0, 0, 0, 0, 0, 0, 0, 0, 0, 0, 0, 0, 0, 0, 0, 0, 0, 0,
  0, 0, 0, 0, 0, 0, 0, 0, 0, 0, 0, 0, 0, 0, 0]"
  by (simp add: sha256_pad_def replicate_num)

lemma wordsOfBytes_hello:
  "wordsOfBytes [104, 101, 108, 108, 111, 32, 119, 111, 114, 108, 100, 128, 0, 0, 0, 0, 0,
  0, 0, 0, 0, 0, 0, 0, 0, 0, 0, 0, 0, 0, 0, 0, 0, 0, 0, 0, 0, 0, 0, 0, 0, 0,
  0, 0, 0, 0, 0, 0, 0, 0, 0, 0, 0, 0, 0, 0, 0, 0, 0, 0, 0, 0, 0, 88]
   = [1751477356, 1864398703, 1919706240, 0, 0, 0, 0, 0, 0, 0, 0, 0, 0, 0, 0, 88]"
  by simp
lemma sha256_schedule_hello: "sha256_schedule 48 [1751477356, 1864398703, 1919706240, 0, 0, 0, 0, 0, 0, 0, 0, 0, 0, 0, 0,
  88] = [1751477356, 1864398703, 1919706240, 0, 0, 0, 0, 0, 0, 0, 0, 0, 0, 0, 0,
  88, 927400503, 2261827633, 3552383243, 2017412994, 714112237, 1261403337,
  836867165, 2302036324, 2138703578, 3245975866, 3152606805, 203088870,
  2969439613, 1601066387, 9018194, 133286548, 996140502, 1751474918,
  3360557726, 112171813, 2465162455, 1677287002, 3809896407, 2218515990,
  4008487003, 2689593889, 4179144120, 346591769, 277107485, 1620304077,
  2198036457, 3584981304, 960431533, 4216003567, 3950378793, 1781962036,
  586980568, 2842955051, 1624193157, 3299645498, 289602989, 2964331993,
  2565915503, 1914157086, 2731829146, 17799547, 4229385994, 3267554070]" by code_simp

lemma sha256_rounds_hello:
  "foldl sha256_round sha256_H0 (zip sha256_K [1751477356, 1864398703, 1919706240, 0, 0, 0, 0, 0, 0, 0, 0, 0, 0, 0, 0,
  88, 927400503, 2261827633, 3552383243, 2017412994, 714112237, 1261403337,
  836867165, 2302036324, 2138703578, 3245975866, 3152606805, 203088870,
  2969439613, 1601066387, 9018194, 133286548, 996140502, 1751474918,
  3360557726, 112171813, 2465162455, 1677287002, 3809896407, 2218515990,
  4008487003, 2689593889, 4179144120, 346591769, 277107485, 1620304077,
  2198036457, 3584981304, 960431533, 4216003567, 3950378793, 1781962036,
  586980568, 2842955051, 1624193157, 3299645498, 289602989, 2964331993,
  2565915503, 1914157086, 2731829146, 17799547, 4229385994, 3267554070])
  = (1329807698, 3622145923, 1757372261, 892188352, 1937153380, 3746437218,
  1896160769, 2265907408)" by code_simp

lemma sha256_blocks_single: "length bytes = 64 \<Longrightarrow> sha256_blocks st bytes = sha256_compress st bytes"
  by (subst sha256_blocks.simps, simp, subst sha256_blocks.simps, simp)

lemma sha256_compress_hello:
  "sha256_compress sha256_H0 [104, 101, 108, 108, 111, 32, 119, 111, 114, 108, 100, 128, 0, 0, 0, 0, 0,
  0, 0, 0, 0, 0, 0, 0, 0, 0, 0, 0, 0, 0, 0, 0, 0, 0, 0, 0, 0, 0, 0, 0, 0, 0,
  0, 0, 0, 0, 0, 0, 0, 0, 0, 0, 0, 0, 0, 0, 0, 0, 0, 0, 0, 0, 0, 88] =
    (3108841401, 2471312904, 2771276503, 3665669114, 3297046499, 2052292846,
  2424895404, 3807366633)"
proof -
  have "sha256_add sha256_H0 (1329807698, 3622145923, 1757372261, 892188352, 1937153380, 3746437218,
  1896160769, 2265907408) = (3108841401, 2471312904, 2771276503, 3665669114, 3297046499, 2052292846,
  2424895404, 3807366633)"
    by (simp add: sha256_add_def sha256_H0_def)
  then show ?thesis
    by (simp only: sha256_compress_def wordsOfBytes_hello sha256_schedule_hello sha256_rounds_hello)
qed

lemma sha256_hex_hello:
  "sha256_hex [104, 101, 108, 108, 111, 32, 119, 111, 114, 108, 100] = ''b94d27b9934d3e08a52e52d7da7dabfac484efe37a5380ee9088f7ace2efcde9''"
proof -
  have "sha256_blocks sha256_H0 (sha256_pad [104, 101, 108, 108, 111, 32, 119, 111, 114, 108, 100])
     = (3108841401, 2471312904, 2771276503, 3665669114, 3297046499, 2052292846, 2424895404, 3807366633)"
  proof -
    have l: "length [104, 101, 108, 108, 111, 32, 119, 111, 114, 108, 100, 128, 0, 0, 0, 0, 0,
  0, 0, 0, 0, 0, 0, 0, 0, 0, 0, 0, 0, 0, 0, 0, 0, 0, 0, 0, 0, 0, 0, 0, 0, 0,
  0, 0, 0, 0, 0, 0, 0, 0, 0, 0, 0, 0, 0, 0, 0, 0, 0, 0, 0, 0, 0, (88::nat)] = 64" by simp
    show ?thesis
      by (simp only: sha256_pad_hello sha256_blocks_single [OF l] sha256_compress_hello)
  qed
  then show ?thesis
    by (simp add: sha256_hex_def hex32_def hexDigit_def)
qed


lemma wordsOfBytes_empty:
  "wordsOfBytes [128, 0, 0, 0, 0, 0, 0, 0, 0, 0, 0, 0, 0, 0, 0, 0, 0, 0, 0, 0, 0, 0, 0, 0,
  0, 0, 0, 0, 0, 0, 0, 0, 0, 0, 0, 0, 0, 0, 0, 0, 0, 0, 0, 0, 0, 0, 0, 0, 0,
  0, 0, 0, 0, 0, 0, 0, 0, 0, 0, 0, 0, 0, 0, 0]
   = [2147483648, 0, 0, 0, 0, 0, 0, 0, 0, 0, 0, 0, 0, 0, 0, 0]"
  by simp

lemma sha256_schedule_empty:
  "sha256_schedule 48 [2147483648, 0, 0, 0, 0, 0, 0, 0, 0, 0, 0, 0, 0, 0, 0, 0]
   = [2147483648, 0, 0, 0, 0, 0, 0, 0, 0, 0, 0, 0, 0, 0, 0, 0, 2147483648, 0,
  2117632, 0, 570427392, 0, 84448578, 2147483648, 1476919296, 4235264,
  1451269, 1711282176, 3592562048, 337794312, 3594910044, 3374850048,
  3287351444, 676112230, 109604294, 2742808854, 1904000662, 4274181962,
  2813755136, 2165675682, 2561075048, 62000258, 1562224585, 2975250741,
  3286092305, 614207615, 3297584367, 1575308336, 3741240933, 748767245,
  1008022316, 30329261, 369937616, 195877528, 907775968, 3526495142,
  43741191, 1967544444, 133517113, 4161330627, 3704256008, 1581412744,
  1153231965, 996066459]"
  by code_simp

lemma sha256_rounds_empty:
  "foldl sha256_round sha256_H0 (zip sha256_K [2147483648, 0, 0, 0, 0, 0, 0, 0, 0, 0, 0, 0, 0, 0, 0, 0, 2147483648, 0,
  2117632, 0, 570427392, 0, 84448578, 2147483648, 1476919296, 4235264,
  1451269, 1711282176, 3592562048, 337794312, 3594910044, 3374850048,
  3287351444, 676112230, 109604294, 2742808854, 1904000662, 4274181962,
  2813755136, 2165675682, 2561075048, 62000258, 1562224585, 2975250741,
  3286092305, 614207615, 3297584367, 1575308336, 3741240933, 748767245,
  1008022316, 30329261, 369937616, 195877528, 907775968, 3526495142,
  43741191, 1967544444, 133517113, 4161330627, 3704256008, 1581412744,
  1153231965, 996066459])
   = (2040978907, 3717492111, 1586299222, 4095722474, 3600805733, 3382061760,
  2232532848, 477227836)"
  by code_simp

lemma sha256_compress_empty:
  "sha256_compress sha256_H0 [128, 0, 0, 0, 0, 0, 0, 0, 0, 0, 0, 0, 0, 0, 0, 0, 0, 0, 0, 0, 0, 0, 0, 0,
  0, 0, 0, 0, 0, 0, 0, 0, 0, 0, 0, 0, 0, 0, 0, 0, 0, 0, 0, 0, 0, 0, 0, 0, 0,
  0, 0, 0, 0, 0, 0, 0, 0, 0, 0, 0, 0, 0, 0, 0] =
    (3820012610, 2566659092, 2600203464, 2574235940, 665731556, 1687917388,
  2761267483, 2018687061)"
proof -
  have "sha256_add sha256_H0 (2040978907, 3717492111, 1586299222, 4095722474, 3600805733, 3382061760,
  2232532848, 477227836) = (3820012610, 2566659092, 2600203464, 2574235940, 665731556, 1687917388,
  2761267483, 2018687061)"
    by (simp add: sha256_add_def sha256_H0_def)
  then show ?thesis
    by (simp only: sha256_compress_def wordsOfBytes_empty sha256_schedule_empty sha256_rounds_empty)
qed

lemma sha256_hex_empty:
  "sha256_hex [] = ''e3b0c44298fc1c149afbf4c8996fb92427ae41e4649b934ca495991b7852b855''"
proof -
  have "sha256_blocks sha256_H0 (sha256_pad [])
     = (3820012610, 2566659092, 2600203464, 2574235940, 665731556, 1687917388, 2761267483, 2018687061)"
  proof -
    have l: "length [128, 0, 0, 0, 0, 0, 0, 0, 0, 0, 0, 0, 0, 0, 0, 0, 0, 0, 0, 0, 0, 0, 0, 0,
  0, 0, 0, 0, 0, 0, 0, 0, 0, 0, 0, 0, 0, 0, 0, 0, 0, 0, 0, 0, 0, 0, 0, 0, 0,
  0, 0, 0, 0, 0, 0, 0, 0, 0, 0, 0, 0, 0, 0, (0::nat)] = 64" by simp
    show ?thesis
      by (simp only: sha256_pad_empty sha256_blocks_single [OF l] sha256_compress_empty)
  qed
  then show ?thesis
    by (simp add: sha256_hex_def hex32_def hexDigit_def)
qed

lemma normalizeContent_tests:
  "normalizeContent ''Hello   World'' = ''hello world''"
  "normalizeContent ''hello world'' = ''hello world''"
  "normalizeContent ''  Hello World  '' = ''hello world''"
  "normalizeContent '''' = ''''"
  by (simp_all add: normalizeContent_def trim_def toLowerCase_def toLowerChar_def isWhitespace_def
        charCode_def char_eval)

lemma computeContentHash_tests:
  "computeContentHash ''Hello   World'' = ''b94d27b9934d3e08a52e52d7da7dabfa''"
  "computeContentHash ''hello world'' = ''b94d27b9934d3e08a52e52d7da7dabfa''"
  "computeContentHash ''  Hello World  '' = ''b94d27b9934d3e08a52e52d7da7dabfa''"
  "computeContentHash '''' = ''e3b0c44298fc1c149afbf4c8996fb924''"
  by (simp_all add: computeContentHash_def normalizeContent_tests utf8_hello sha256_hex_hello)
     (simp_all add: utf8_def sha256_hex_empty)

lemma wordsOf_tests:
  "wordsOf ''Hello   World'' = [''Hello'', ''World'']"
  "wordsOf ''hello world'' = [''hello'', ''world'']"
  "wordsOf ''  Hello World  '' = [''Hello'', ''World'']"
  by (simp_all add: wordsOf.simps isWhitespace_def charCode_def)

lemma toLowerCase_tests:
  "toLowerCase ''Hello'' = ''hello''" "toLowerCase ''World'' = ''world''"
  "toLowerCase ''hello'' = ''hello''" "toLowerCase ''world'' = ''world''"
  by (simp_all add: toLowerCase_def toLowerChar_def char_eval)

section \<open>Lemmas on the digest run\<close>

lemma selectDiverseItems_array_Nil: "selectDiverseItems_array [] maxItems maxPerTopic = []"
  by (simp add: selectDiverseItems_array_def selectDiverseItems_def)

lemma selectedFeedItems_emptyEnv:
  "selectedFeedItems_of emptyEnv = []"
  "selectedFeedItems_of savedEnv = []"
  by (simp_all add: selectedFeedItems_of_def savedEnv_def emptyEnv_def scoreAndRankFeedItems_def
        scoredItems_of_def sortBy_def selectDiverseItems_array_Nil)

text \<open>With one saved article the run delivers one digest and marks the article as sent.\<close>

lemma main_delivers_saved_article:
  "deliveries (fst (main savedEnv)) = [(''kindle-digest-1970-01-01.epub'', 1)]
   \<and> markedSent (fst (main savedEnv)) = [''a1'']
   \<and> snd (main savedEnv) = Inr ()"
  unfolding main_def Let_def selectedFeedItems_emptyEnv
  by (simp add: savedEnv_def emptyEnv_def emptyWorld_def slice0_def savedArticle_def)

section \<open>Claims\<close>

text \<open>
  Claim C1. \<open>selectDiverseItems\<close> is the two-pass selection of the specification: the
  first pass admits an item exactly when fewer than \<open>maxPerTopic\<close> items of its primary
  topic have been admitted. This fails for a topic whose name is a property of
  \<open>Object.prototype\<close>: with two items, the first of topic \<open>constructor\<close>, and
  \<open>maxItems = maxPerTopic = 1\<close>, the function skips the first item and returns the
  second, where the selection as specified returns the first. (By
  \<open>selectDiverseItems_refines_spec\<close> the two agree on all other topic names, and
  \<open>selectDiverseItems_test_example\<close> is the example of the claim.)
\<close>

theorem selectDiverseItems_inherited_topic:
  "selectDiverseItems protoStore [0, 1] 1 1 = [1]
   \<and> selectDiverseItems_spec protoStore [0, 1] 1 1 = [0]"
  by (simp add: selectDiverseItems_def selectDiverseItems_spec_def protoStore_def
        createScoredItem_def primaryTopic_def currentCountOf_def objectPrototypeKeys_def
        admittedWithTopic_def Let_def)

text \<open>
  Claim C2. \<open>canonicalizeUrl\<close> is idempotent on every input string. This fails: one
  trailing slash is removed per call, so a path that ends in two slashes loses one slash
  at each of the first two calls.
\<close>

theorem canonicalizeUrl_not_idempotent:
  "canonicalizeUrl parsePlainUrl serializeUrl
     (canonicalizeUrl parsePlainUrl serializeUrl ''https://example.com/a//'')
   \<noteq> canonicalizeUrl parsePlainUrl serializeUrl ''https://example.com/a//''"
  by (simp add: canonicalizeUrl_slashes)

text \<open>
  Claim C2, amended. \<open>canonicalizeUrl\<close> is idempotent on every input that the URL
  constructor rejects, and on every input that it parses into a URL whose path does not
  end in two slashes (the path \<open>//\<close> apart) and whose host, after one leading \<open>www.\<close>
  is removed, does not start with \<open>www.\<close> in any letter case, provided the platform
  reads the serialised canonical URL back as the same URL.
\<close>

theorem canonicalizeUrl_idempotent_amended:
  assumes "newURL u = None \<or>
     (\<exists>v. newURL u = Some v
        \<and> newURL (toString (canonicalizeParsed v)) = Some (canonicalizeParsed v)
        \<and> \<not> (endsWith (pathname v) ''//'' \<and> length (pathname v) > 2)
        \<and> \<not> startsWith (toLowerCase (if startsWith (hostname v) ''www.''
                                       then drop 4 (hostname v) else hostname v)) ''www.'')"
  shows "canonicalizeUrl newURL toString (canonicalizeUrl newURL toString u)
           = canonicalizeUrl newURL toString u"
proof (cases "newURL u")
  case None
  then show ?thesis by (simp add: canonicalizeUrl_def)
next
  case (Some v)
  with assms have rt: "newURL (toString (canonicalizeParsed v)) = Some (canonicalizeParsed v)"
    and p: "\<not> (endsWith (pathname v) ''//'' \<and> length (pathname v) > 2)"
    and h: "\<not> startsWith (toLowerCase (if startsWith (hostname v) ''www.''
                                       then drop 4 (hostname v) else hostname v)) ''www.''"
    by auto
  have "canonicalizeParsed (canonicalizeParsed v) = canonicalizeParsed v"
    using p h by (rule canonicalizeParsed_idem)
  with Some rt show ?thesis by (simp add: canonicalizeUrl_def)
qed

text \<open>
  Witness for C2, amended: a URL with a tracking parameter, a \<open>www.\<close> host in mixed case
  and a trailing slash.
\<close>

theorem canonicalizeUrl_idempotent_amended_witness:
  "canonicalizeUrl parsePlainUrl serializeUrl
     (canonicalizeUrl parsePlainUrl serializeUrl ''http://www.Example.com/Article/?utm_source=x&id=1'')
   = canonicalizeUrl parsePlainUrl serializeUrl ''http://www.Example.com/Article/?utm_source=x&id=1''
   \<and> canonicalizeUrl parsePlainUrl serializeUrl ''http://www.Example.com/Article/?utm_source=x&id=1''
       = ''https://example.com/Article?id=1''"
proof -
  let ?u = "''http://www.Example.com/Article/?utm_source=x&id=1''"
  let ?v = "plainUrl ''http'' ''www.example.com'' ''/Article/'' [(''utm_source'', ''x''), (''id'', ''1'')]"
  have "parsePlainUrl ?u = Some ?v
        \<and> parsePlainUrl (serializeUrl (canonicalizeParsed ?v)) = Some (canonicalizeParsed ?v)
        \<and> \<not> (endsWith (pathname ?v) ''//'' \<and> length (pathname ?v) > 2)
        \<and> \<not> startsWith (toLowerCase (if startsWith (hostname ?v) ''www.''
                                       then drop 4 (hostname ?v) else hostname ?v)) ''www.''"
    by (simp add: parse_article canon_article serialize_article)
       (simp add: plainUrl_def char_class_eval)
  then have hyp: "parsePlainUrl ?u = None \<or>
     (\<exists>v. parsePlainUrl ?u = Some v
        \<and> parsePlainUrl (serializeUrl (canonicalizeParsed v)) = Some (canonicalizeParsed v)
        \<and> \<not> (endsWith (pathname v) ''//'' \<and> length (pathname v) > 2)
        \<and> \<not> startsWith (toLowerCase (if startsWith (hostname v) ''www.''
                                       then drop 4 (hostname v) else hostname v)) ''www.'')"
    by blast
  have "canonicalizeUrl parsePlainUrl serializeUrl ?u = ''https://example.com/Article?id=1''"
    by (simp add: canonicalizeUrl_def parse_article canon_article serialize_article)
  with canonicalizeUrl_idempotent_amended [OF hyp] show ?thesis by simp
qed

text \<open>
  Claim C3. For a non-empty list of \<open>n\<close> articles, \<open>applyFallbackRanking\<close> sorts the
  articles by manual-save flag and then by the number of matched topics, both
  descending, so that every manual save comes before every other article; the article at
  index \<open>i\<close> of the sorted list gets tier critical when \<open>i < max(1, floor(n * 0.2))\<close>,
  notable for the next \<open>max(2, floor(n * 0.3))\<close> indices, and related after that; a single
  article gets critical; and when the ids are pairwise distinct the keys of the result
  are exactly the ids of the input.
\<close>

theorem applyFallbackRanking_tiers:
  assumes "articles \<noteq> []" and "distinct (map art_id articles)"
  shows "mset (sortBy compareArticles articles) = mset articles
       \<and> sorted_wrt (\<lambda>a b. (isManualSave a \<and> \<not> isManualSave b)
                           \<or> (isManualSave a = isManualSave b \<and> topicCount a \<ge> topicCount b))
           (sortBy compareArticles articles)
       \<and> (\<forall>i < length articles.
             applyFallbackRanking articles (art_id (sortBy compareArticles articles ! i))
               = Some \<lparr> tier = (if i < max 1 (nat \<lfloor>real (length articles) * 0.2\<rfloor>) then critical
                                else if i < max 1 (nat \<lfloor>real (length articles) * 0.2\<rfloor>)
                                            + max 2 (nat \<lfloor>real (length articles) * 0.3\<rfloor>) then notable
                                else related),
                        tierReason = ''Keyword-based fallback ranking'' \<rparr>)
       \<and> dom (applyFallbackRanking articles) = art_id ` set articles
       \<and> (length articles = 1 \<longrightarrow>
             map_option tier (applyFallbackRanking articles (art_id (hd articles))) = Some critical)"
proof -
  let ?s = "sortBy compareArticles articles"
  have ms: "mset ?s = mset articles" by (simp add: sortBy_compareArticles)
  have len: "length ?s = length articles" by (simp add: sortBy_compareArticles)
  have st: "set ?s = set articles" by (simp add: sortBy_compareArticles)
  have "mset (map art_id ?s) = mset (map art_id articles)"
    using ms by (metis mset_map)
  then have ds: "distinct (map art_id ?s)"
    using assms(2) by (metis mset_eq_imp_distinct_iff)
  note r = applyFallbackRanking_sorted [OF assms(1)]
  have look: "applyFallbackRanking articles (art_id (?s ! i))
        = Some \<lparr> tier = tierOfIndex (max 1 (length articles div 5)) (max 2 ((3 * length articles) div 10)) i,
                 tierReason = ''Keyword-based fallback ranking'' \<rparr>" if "i < length articles" for i
    unfolding r using that len by (intro setEntry_lookup [OF ds]) simp
  have d: "dom (applyFallbackRanking articles) = art_id ` set articles"
    unfolding r setEntry_dom st by (rule refl)
  have single: "map_option tier (applyFallbackRanking articles (art_id (hd articles))) = Some critical"
    if "length articles = 1"
  proof -
    from that obtain a where a: "articles = [a]" by (cases articles) auto
    then have "?s = [a]" by (simp add: sortBy_def)
    with look [of 0] a show ?thesis by (simp add: tierOfIndex_def)
  qed
  have tiers: "\<forall>i < length articles.
             applyFallbackRanking articles (art_id (?s ! i))
               = Some \<lparr> tier = (if i < max 1 (nat \<lfloor>real (length articles) * 0.2\<rfloor>) then critical
                                else if i < max 1 (nat \<lfloor>real (length articles) * 0.2\<rfloor>)
                                            + max 2 (nat \<lfloor>real (length articles) * 0.3\<rfloor>) then notable
                                else related),
                        tierReason = ''Keyword-based fallback ranking'' \<rparr>"
    using look unfolding tierOfIndex_def floor_fifth floor_three_tenths by blast
  from ms sorted_rank [of articles] tiers d single show ?thesis by blast
qed

text \<open>
  Witness for C3: a feed article without topics, a manual save and a feed article with
  one topic. The manual save sorts first and is critical; the other two are notable.
\<close>

theorem applyFallbackRanking_tiers_witness:
  "rankingTestArticles \<noteq> [] \<and> distinct (map art_id rankingTestArticles)
   \<and> map art_id (sortBy compareArticles rankingTestArticles) = [''saved1'', ''rss2'', ''rss1'']
   \<and> map_option tier (applyFallbackRanking rankingTestArticles ''saved1'') = Some critical
   \<and> map_option tier (applyFallbackRanking rankingTestArticles ''rss2'') = Some notable
   \<and> map_option tier (applyFallbackRanking rankingTestArticles ''rss1'') = Some notable
   \<and> dom (applyFallbackRanking rankingTestArticles) = {''rss1'', ''saved1'', ''rss2''}"
proof -
  have ne: "rankingTestArticles \<noteq> []" by (simp add: rankingTestArticles_def)
  have di: "distinct (map art_id rankingTestArticles)"
    by (simp add: rankingTestArticles_def createArticle_def)
  have len: "length rankingTestArticles = 3" by (simp add: rankingTestArticles_def)
  note t = applyFallbackRanking_tiers [OF ne di, unfolded sortBy_rankingTestArticles len]
  from t have l: "\<forall>i<3. applyFallbackRanking rankingTestArticles
                (art_id ([createArticle ''saved1'' True None ''Excerpt'',
                          createArticle ''rss2'' False (Some [''topic1'']) ''Excerpt'',
                          createArticle ''rss1'' False None ''Excerpt''] ! i))
             = Some \<lparr> tier = (if i < max 1 (nat \<lfloor>real 3 * 0.2\<rfloor>) then critical
                                else if i < max 1 (nat \<lfloor>real 3 * 0.2\<rfloor>) + max 2 (nat \<lfloor>real 3 * 0.3\<rfloor>) then notable
                                else related),
                        tierReason = ''Keyword-based fallback ranking'' \<rparr>"
    by blast
  have f: "nat \<lfloor>real 3 * 0.2\<rfloor> = 0" "nat \<lfloor>real 3 * 0.3\<rfloor> = 0"
    by (simp_all add: floor_fifth floor_three_tenths)
  from l [rule_format, of 0] l [rule_format, of 1] l [rule_format, of 2]
  have "map_option tier (applyFallbackRanking rankingTestArticles ''saved1'') = Some critical"
    "map_option tier (applyFallbackRanking rankingTestArticles ''rss2'') = Some notable"
    "map_option tier (applyFallbackRanking rankingTestArticles ''rss1'') = Some notable"
    unfolding f by (simp_all add: createArticle_def)
  moreover from t have "dom (applyFallbackRanking rankingTestArticles) = {''rss1'', ''saved1'', ''rss2''}"
    by (simp add: rankingTestArticles_def createArticle_def)
  ultimately show ?thesis
    using ne di by (simp add: sortBy_rankingTestArticles createArticle_def)
qed

text \<open>
  Claim C4. \<open>scoreKeyword\<close> normalises both strings (lower case, then every character
  outside a-z, 0-9, whitespace and the hyphen becomes a space), counts the occurrences of
  the normalised keyword in the normalised text that begin and end at a word boundary,
  and returns the minimum of 10 and twice that count; the result is 2 for
  \<open>apple\<close> in \<open>Apple announces iPhone\<close>, 10 for six occurrences, and never above 10.
\<close>

theorem scoreKeyword_counts_occurrences:
  "scoreKeyword keyword blob
     = min 10 (2 * int (countOccurrences (normalizeText keyword) None (normalizeText blob)))
   \<and> normalizeText blob
       = map (\<lambda>c. if isLowerAlpha (toLowerChar c) \<or> isDigit (toLowerChar c)
                      \<or> isWhitespace (toLowerChar c) \<or> toLowerChar c = CHR ''-''
                   then toLowerChar c else CHR '' '') blob
   \<and> scoreKeyword keyword blob \<le> 10
   \<and> scoreKeyword ''apple'' ''Apple announces iPhone'' = 2
   \<and> scoreKeyword ''apple'' ''Apple Apple Apple Apple Apple Apple'' = 10"
  by (simp add: scoreKeyword_formula [of keyword blob] scoreKeyword_examples normalizeText_def
        toLowerCase_def)

text \<open>
  Claim C5. The recency score is 0 without a publish date, 100 up to an age of 6 hours,
  0 from 72 hours on, and \<open>100 - (ageHours - 6) * (100 / 66)\<close> between; the score of an
  item is the sum of the positive topic scores plus 0.2 times the recency score; the
  matched topics are the topics of positive score, and an item that matches no topic is
  still scored, with an empty list of matched topics. The formulas are stated twice:
  in exact arithmetic, and in double arithmetic with its rounding \<open>fl\<close> after every
  operation. An invalid publish date has the age NaN, at which the formula gives the
  recency score NaN and the score NaN.
\<close>

theorem scoreFeedItem_score:
  "calculateRecencyScore fl now None = Num 0
   \<and> calculateRecencyScore (\<lambda>x. x) now (Some (ValidDate t)) =
       (let ageHours = real_of_int (now - t) / 3600000
        in if ageHours \<le> 6 then Num 100 else if ageHours \<ge> 72 then Num 0
           else Num (100 - (ageHours - 6) * (100 / 66)))
   \<and> calculateRecencyScore fl now (Some (ValidDate t)) =
       (let ageHours = fl (fl (real_of_int now - real_of_int t) / 3600000)
        in if ageHours \<le> 6 then Num 100 else if ageHours \<ge> 72 then Num 0
           else Num (max 0 (fl (100 - fl (fl (ageHours - 6) * fl (100 / 66))))))
   \<and> calculateRecencyScore fl now (Some InvalidDate) = NaN
   \<and> recencyScore (scoreFeedItem fl now item interests) = calculateRecencyScore fl now (pubDate item)
   \<and> (pubDate item \<noteq> Some InvalidDate \<longrightarrow>
        (\<exists>r. recencyScore (scoreFeedItem (\<lambda>x. x) now item interests) = Num r
           \<and> score (scoreFeedItem (\<lambda>x. x) now item interests)
               = Num (real_of_int (\<Sum>(n, t) \<leftarrow> filter (\<lambda>(n, t). topicScore_spec (textToSearch_of item) t > 0) interests.
                                      topicScore_spec (textToSearch_of item) t)
                      + 0.2 * r)))
   \<and> (pubDate item \<noteq> Some InvalidDate \<longrightarrow>
        (\<exists>r. recencyScore (scoreFeedItem fl now item interests) = Num r
           \<and> score (scoreFeedItem fl now item interests)
               = Num (fl (real_of_int (\<Sum>(n, t) \<leftarrow> filter (\<lambda>(n, t). topicScore_spec (textToSearch_of item) t > 0) interests.
                                          topicScore_spec (textToSearch_of item) t)
                          + fl (r * fl 0.2)))))
   \<and> (pubDate item = Some InvalidDate \<longrightarrow>
        recencyScore (scoreFeedItem fl now item interests) = NaN
        \<and> score (scoreFeedItem fl now item interests) = NaN)
   \<and> matchedTopics (scoreFeedItem fl now item interests)
       = map fst (filter (\<lambda>(n, t). topicScore_spec (textToSearch_of item) t > 0) interests)
   \<and> (filter (\<lambda>(n, t). topicScore_spec (textToSearch_of item) t > 0) interests = []
        \<longrightarrow> matchedTopics (scoreFeedItem fl now item interests) = []
            \<and> score (scoreFeedItem fl now item interests)
                = js_add fl (Num 0) (js_mul fl (recencyScore (scoreFeedItem fl now item interests)) (Num (fl 0.2)))
            \<and> (pubDate item \<noteq> Some InvalidDate \<longrightarrow>
                 (\<exists>r. recencyScore (scoreFeedItem (\<lambda>x. x) now item interests) = Num r
                    \<and> score (scoreFeedItem (\<lambda>x. x) now item interests) = Num (0.2 * r))))"
proof -
  let ?pos = "filter (\<lambda>(n, t). topicScore_spec (textToSearch_of item) t > 0) interests"
  let ?S = "real_of_int (\<Sum>(n, t) \<leftarrow> ?pos. topicScore_spec (textToSearch_of item) t)"
  have S: "real_of_int (\<Sum>(n, t) \<leftarrow> interests. topicScore_spec (textToSearch_of item) t) = ?S"
    by (simp only: sum_positive_topics)
  have sc: "score (scoreFeedItem g now item interests)
              = js_add g (Num ?S) (js_mul g (calculateRecencyScore g now (pubDate item)) (Num (g 0.2)))" for g
    by (simp only: scoreFeedItem_fields(1) S)
  have a: "calculateRecencyScore fl now None = Num 0" by (rule calculateRecencyScore_None)
  note b = calculateRecencyScore_exact [of now t]
  note b' = calculateRecencyScore_Valid [of fl now t]
  note b'' = calculateRecencyScore_Invalid [of fl now]
  have c: "recencyScore (scoreFeedItem fl now item interests) = calculateRecencyScore fl now (pubDate item)"
    by (rule scoreFeedItem_fields(3))
  have d: "pubDate item \<noteq> Some InvalidDate \<longrightarrow>
        (\<exists>r. recencyScore (scoreFeedItem g now item interests) = Num r
           \<and> score (scoreFeedItem g now item interests) = Num (g (?S + g (r * g 0.2))))" for g
  proof
    assume "pubDate item \<noteq> Some InvalidDate"
    from calculateRecencyScore_Num [OF this] obtain r
      where r: "calculateRecencyScore g now (pubDate item) = Num r" by blast
    have "recencyScore (scoreFeedItem g now item interests) = Num r"
      by (simp only: scoreFeedItem_fields(3) r)
    moreover have "score (scoreFeedItem g now item interests) = Num (g (?S + g (r * g 0.2)))"
      by (simp only: sc r js_add.simps js_mul.simps)
    ultimately show "\<exists>r. recencyScore (scoreFeedItem g now item interests) = Num r
           \<and> score (scoreFeedItem g now item interests) = Num (g (?S + g (r * g 0.2)))"
      by blast
  qed
  have d0: "pubDate item \<noteq> Some InvalidDate \<longrightarrow>
        (\<exists>r. recencyScore (scoreFeedItem (\<lambda>x. x) now item interests) = Num r
           \<and> score (scoreFeedItem (\<lambda>x. x) now item interests) = Num (?S + 0.2 * r))"
    using d [of "\<lambda>x. x"] by (simp add: mult.commute)
  have e: "pubDate item = Some InvalidDate \<longrightarrow>
        recencyScore (scoreFeedItem fl now item interests) = NaN
        \<and> score (scoreFeedItem fl now item interests) = NaN"
    by (simp add: sc c calculateRecencyScore_Invalid)
  have f: "matchedTopics (scoreFeedItem fl now item interests) = map fst ?pos"
    by (rule scoreFeedItem_fields(2))
  have g: "?pos = []
        \<longrightarrow> matchedTopics (scoreFeedItem fl now item interests) = []
            \<and> score (scoreFeedItem fl now item interests)
                = js_add fl (Num 0) (js_mul fl (recencyScore (scoreFeedItem fl now item interests)) (Num (fl 0.2)))
            \<and> (pubDate item \<noteq> Some InvalidDate \<longrightarrow>
                 (\<exists>r. recencyScore (scoreFeedItem (\<lambda>x. x) now item interests) = Num r
                    \<and> score (scoreFeedItem (\<lambda>x. x) now item interests) = Num (0.2 * r)))"
  proof
    assume z: "?pos = []"
    have "matchedTopics (scoreFeedItem fl now item interests) = []"
      unfolding f z by simp
    moreover have "score (scoreFeedItem fl now item interests)
                = js_add fl (Num 0) (js_mul fl (recencyScore (scoreFeedItem fl now item interests)) (Num (fl 0.2)))"
      unfolding sc c z by simp
    moreover have "pubDate item \<noteq> Some InvalidDate \<longrightarrow>
                 (\<exists>r. recencyScore (scoreFeedItem (\<lambda>x. x) now item interests) = Num r
                    \<and> score (scoreFeedItem (\<lambda>x. x) now item interests) = Num (0.2 * r))"
      using d0 unfolding z by simp
    ultimately show "matchedTopics (scoreFeedItem fl now item interests) = []
            \<and> score (scoreFeedItem fl now item interests)
                = js_add fl (Num 0) (js_mul fl (recencyScore (scoreFeedItem fl now item interests)) (Num (fl 0.2)))
            \<and> (pubDate item \<noteq> Some InvalidDate \<longrightarrow>
                 (\<exists>r. recencyScore (scoreFeedItem (\<lambda>x. x) now item interests) = Num r
                    \<and> score (scoreFeedItem (\<lambda>x. x) now item interests) = Num (0.2 * r)))"
      by blast
  qed
  show ?thesis
    by (intro conjI a b b' b'' c d0 d [of fl] e f g)
qed

text \<open>
  Witness for C5: the weather item of the repository's test matches no topic; scored at
  the time of its publication, in exact arithmetic, it has recency 100, score 20 and no
  matched topic.
\<close>

theorem scoreFeedItem_score_witness:
  "filter (\<lambda>(n, t). topicScore_spec (textToSearch_of weatherItem) t > 0) appleInterests = []
   \<and> pubDate weatherItem \<noteq> Some InvalidDate
   \<and> matchedTopics (scoreFeedItem (\<lambda>x. x) 0 weatherItem appleInterests) = []
   \<and> recencyScore (scoreFeedItem (\<lambda>x. x) 0 weatherItem appleInterests) = Num 100
   \<and> score (scoreFeedItem (\<lambda>x. x) 0 weatherItem appleInterests) = Num 20"
proof -
  have e: "filter (\<lambda>(n, t). topicScore_spec (textToSearch_of weatherItem) t > 0) appleInterests = []"
    by (simp add: topicScore_spec_def textToSearch_of_def weatherItem_def appleItem_def
          appleInterests_def scoreKeyword_apple_items)
  have p: "pubDate weatherItem \<noteq> Some InvalidDate"
    by (simp add: weatherItem_def appleItem_def)
  have r: "calculateRecencyScore (\<lambda>x. x) 0 (pubDate weatherItem) = Num 100"
    by (simp add: weatherItem_def appleItem_def recency_at_zero)
  from scoreFeedItem_score [of "\<lambda>x. x" 0 0 weatherItem appleInterests] e p r show ?thesis
    by auto
qed




text \<open>
  Claim C7. \<open>computeContentHash\<close> lower-cases the text, turns every run of whitespace
  into one space, trims, keeps the first 5000 characters and returns the first 32
  characters of the hexadecimal SHA-256 digest. The text that is hashed is therefore the
  lower-cased words of the input joined by single spaces, cut to 5000 characters. The
  result has 32 lower-case hexadecimal characters for every input; two inputs with the
  same words up to letter case have the same fingerprint, so letter case, the whitespace
  of a run and whitespace at either end do not matter. The digests of the repository's
  test inputs are the SHA-256 digests of \<open>hello world\<close> and of the empty string.
\<close>

theorem computeContentHash_fingerprint:
  "computeContentHash s
      = take 32 (sha256_hex (utf8 (take 5000 (joinWith '' '' (map toLowerCase (wordsOf s))))))
   \<and> length (computeContentHash s) = 32
   \<and> list_all isHexLower (computeContentHash s)
   \<and> (map toLowerCase (wordsOf s) = map toLowerCase (wordsOf s')
        \<longrightarrow> computeContentHash s = computeContentHash s')
   \<and> computeContentHash (toLowerCase s) = computeContentHash s
   \<and> (list_all isWhitespace u \<and> list_all isWhitespace v
        \<longrightarrow> computeContentHash (u @ s @ v) = computeContentHash s)
   \<and> (w \<noteq> [] \<and> list_all isWhitespace w \<and> w' \<noteq> [] \<and> list_all isWhitespace w'
        \<longrightarrow> computeContentHash (a @ w @ b) = computeContentHash (a @ w' @ b))
   \<and> computeContentHash ''Hello   World'' = ''b94d27b9934d3e08a52e52d7da7dabfa''
   \<and> computeContentHash ''hello world'' = ''b94d27b9934d3e08a52e52d7da7dabfa''
   \<and> computeContentHash ''  Hello World  '' = ''b94d27b9934d3e08a52e52d7da7dabfa''
   \<and> computeContentHash '''' = ''e3b0c44298fc1c149afbf4c8996fb924''"
proof -
  have c1: "computeContentHash x
      = take 32 (sha256_hex (utf8 (take 5000 (joinWith '' '' (map toLowerCase (wordsOf x))))))" for x
    by (simp only: computeContentHash_def normalizeContent_words)
  have c2: "length (computeContentHash s) = 32"
    by (simp add: computeContentHash_def length_sha256_hex)
  have c3: "list_all isHexLower (computeContentHash s)"
    unfolding computeContentHash_def by (rule list_all_take) (rule sha256_hex_isHexLower)
  have c4: "map toLowerCase (wordsOf s) = map toLowerCase (wordsOf s')
        \<longrightarrow> computeContentHash s = computeContentHash s'"
    by (simp only: c1) simp
  have c5: "computeContentHash (toLowerCase s) = computeContentHash s"
    by (rule computeContentHash_lower)
  have c6: "list_all isWhitespace u \<and> list_all isWhitespace v
        \<longrightarrow> computeContentHash (u @ s @ v) = computeContentHash s"
  proof
    assume h: "list_all isWhitespace u \<and> list_all isWhitespace v"
    then have "wordsOf (u @ s @ v) = wordsOf (s @ v)" by (simp add: wordsOf_leading)
    also have "\<dots> = wordsOf s" using h by (simp add: wordsOf_trailing)
    finally show "computeContentHash (u @ s @ v) = computeContentHash s"
      by (simp only: c1)
  qed
  have c7: "w \<noteq> [] \<and> list_all isWhitespace w \<and> w' \<noteq> [] \<and> list_all isWhitespace w'
        \<longrightarrow> computeContentHash (a @ w @ b) = computeContentHash (a @ w' @ b)"
    using computeContentHash_run [of w w' a b] by blast
  note c8 = computeContentHash_tests
  show ?thesis
    by (intro conjI c1 c2 c3 c4 c5 c6 c7 c8)
qed

text \<open>
  Witness for C7: \<open>Hello   World\<close> and \<open>hello world\<close> have the same words up to case;
  two leading spaces and a trailing line feed; a run of a tab and two spaces against one
  space.
\<close>

theorem computeContentHash_fingerprint_witness:
  "map toLowerCase (wordsOf ''Hello   World'') = map toLowerCase (wordsOf ''hello world'')
   \<and> computeContentHash ''Hello   World'' = computeContentHash ''hello world''
   \<and> list_all isWhitespace ''  '' \<and> list_all isWhitespace [CHR 0x0A]
   \<and> computeContentHash (''  '' @ ''Hello   World'' @ [CHR 0x0A]) = computeContentHash ''Hello   World''
   \<and> [CHR 0x09, CHR '' '', CHR '' ''] \<noteq> [] \<and> list_all isWhitespace [CHR 0x09, CHR '' '', CHR '' '']
   \<and> '' '' \<noteq> [] \<and> list_all isWhitespace '' ''
   \<and> computeContentHash (''Hello'' @ [CHR 0x09, CHR '' '', CHR '' ''] @ ''World'')
       = computeContentHash (''Hello'' @ '' '' @ ''World'')
   \<and> length (computeContentHash ''Hello   World'') = 32"
proof -
  have a: "map toLowerCase (wordsOf ''Hello   World'') = map toLowerCase (wordsOf ''hello world'')"
    by (simp add: wordsOf_tests toLowerCase_tests)
  have b: "list_all isWhitespace ''  ''" "list_all isWhitespace [CHR 0x0A]"
    "list_all isWhitespace [CHR 0x09, CHR '' '', CHR '' '']" "list_all isWhitespace '' ''"
    by (simp_all add: isWhitespace_def charCode_def)
  have c: "[CHR 0x09, CHR '' '', CHR '' ''] \<noteq> []" "'' '' \<noteq> []" by simp_all
  from computeContentHash_fingerprint [of "''Hello   World''" "''hello world''" "''  ''" "[CHR 0x0A]"
      "[CHR 0x09, CHR '' '', CHR '' '']" "'' ''" "''Hello''" "''World''"] a b c
  show ?thesis by blast
qed

text \<open>
  Claim C8. For every list of pairs, \<open>generateFallbackSummaries\<close> returns for each
  article the summary made of its excerpt. This fails where two pairs carry the same
  article id: the result is a \<open>Map\<close> keyed by id, the second \<open>set\<close> replaces the entry
  of the first, and the first article is left without a summary of its own excerpt.
\<close>

theorem generateFallbackSummaries_duplicate_id:
  "generateFallbackSummaries
     [(createArticle ''1'' False None ''first excerpt'', critical),
      (createArticle ''1'' False None ''second excerpt'', notable)] ''1''
     = Some \<lparr> summary = ''second excerpt...'', oneLiner = Some ''Article 1'' \<rparr>
   \<and> art_id (createArticle ''1'' False None ''first excerpt'') = ''1''
   \<and> take 400 (art_excerpt (createArticle ''1'' False None ''first excerpt'')) @ ''...''
       = ''first excerpt...''
   \<and> dom (generateFallbackSummaries
        [(createArticle ''1'' False None ''first excerpt'', critical),
         (createArticle ''1'' False None ''second excerpt'', notable)]) = {''1''}"
  by (simp add: generateFallbackSummaries_def createArticle_def)

text \<open>
  Claim C8, amended. For every list of pairs the keys of the result are the ids of the
  articles, and the entry of an id is made from the last pair with that id: the first
  400 characters of its excerpt for the critical tier, the first 150 for the other
  tiers, followed by the ellipsis \<open>...\<close>, and its title as one-liner. Where the ids are
  pairwise distinct, every article has the entry made from its own excerpt. A summary
  is at most 404 characters long for the critical tier and at most 154 for the other
  tiers; for an excerpt of 500 characters it has 403 and 153.
\<close>

theorem generateFallbackSummaries_last_pair:
  "generateFallbackSummaries articles k
     = map_option fallbackSummary (find (\<lambda>p. art_id (fst p) = k) (rev articles))
   \<and> dom (generateFallbackSummaries articles) = set (map (art_id \<circ> fst) articles)
   \<and> (distinct (map (art_id \<circ> fst) articles) \<and> (a, t) \<in> set articles \<longrightarrow>
        (\<exists>r. generateFallbackSummaries articles (art_id a) = Some r
           \<and> summary r = take (if t = critical then 400 else 150) (art_excerpt a) @ ''...''
           \<and> oneLiner r = Some (art_title a)))
   \<and> (\<forall>r. generateFallbackSummaries articles k = Some r \<longrightarrow>
        (\<exists>a t. (a, t) \<in> set articles \<and> art_id a = k
           \<and> summary r = take (if t = critical then 400 else 150) (art_excerpt a) @ ''...''
           \<and> oneLiner r = Some (art_title a)
           \<and> length (summary r) \<le> (if t = critical then 404 else 154)
           \<and> (length (art_excerpt a) = 500
                \<longrightarrow> length (summary r) = (if t = critical then 403 else 153))))"
proof -
  have g: "generateFallbackSummaries articles key
     = map_option fallbackSummary (find (\<lambda>p. art_id (fst p) = key) (rev articles))" for key
  proof -
    have e: "(\<lambda>e. \<lparr> summary = take (if snd e = critical then 400 else 150) (art_excerpt (fst e)) @ ''...'',
                     oneLiner = Some (art_title (fst e)) \<rparr>) = fallbackSummary"
      by (intro ext) (simp add: fallbackSummary_def)
    show ?thesis
      unfolding generateFallbackSummaries_putEntry e
      by (simp add: putEntry_find_last [of "art_id \<circ> fst" fallbackSummary Map.empty articles key]
            split: option.splits)
  qed
  have d: "dom (generateFallbackSummaries articles) = set (map (art_id \<circ> fst) articles)"
  proof (intro set_eqI iffI)
    fix x assume "x \<in> dom (generateFallbackSummaries articles)"
    then obtain p where "find (\<lambda>p. art_id (fst p) = x) (rev articles) = Some p"
      unfolding g by (auto simp: dom_def)
    then have "p \<in> set articles" "art_id (fst p) = x" by (auto dest: find_SomeD)
    then show "x \<in> set (map (art_id \<circ> fst) articles)" by force
  next
    fix x assume "x \<in> set (map (art_id \<circ> fst) articles)"
    then have "find (\<lambda>p. art_id (fst p) = x) (rev articles) \<noteq> None"
      by (auto simp: find_None_iff)
    then show "x \<in> dom (generateFallbackSummaries articles)"
      unfolding g by (auto simp: dom_def)
  qed
  have u: "distinct (map (art_id \<circ> fst) articles) \<and> (a, t) \<in> set articles \<longrightarrow>
        (\<exists>r. generateFallbackSummaries articles (art_id a) = Some r
           \<and> summary r = take (if t = critical then 400 else 150) (art_excerpt a) @ ''...''
           \<and> oneLiner r = Some (art_title a))"
  proof
    assume h: "distinct (map (art_id \<circ> fst) articles) \<and> (a, t) \<in> set articles"
    from find_last_unique [of "art_id \<circ> fst" articles "(a, t)"] h
    have "find (\<lambda>p. art_id (fst p) = art_id a) (rev articles) = Some (a, t)" by simp
    then have "generateFallbackSummaries articles (art_id a) = Some (fallbackSummary (a, t))"
      unfolding g by simp
    then show "\<exists>r. generateFallbackSummaries articles (art_id a) = Some r
           \<and> summary r = take (if t = critical then 400 else 150) (art_excerpt a) @ ''...''
           \<and> oneLiner r = Some (art_title a)"
      by (simp add: fallbackSummary_def)
  qed
  have l: "\<forall>r. generateFallbackSummaries articles k = Some r \<longrightarrow>
        (\<exists>a t. (a, t) \<in> set articles \<and> art_id a = k
           \<and> summary r = take (if t = critical then 400 else 150) (art_excerpt a) @ ''...''
           \<and> oneLiner r = Some (art_title a)
           \<and> length (summary r) \<le> (if t = critical then 404 else 154)
           \<and> (length (art_excerpt a) = 500
                \<longrightarrow> length (summary r) = (if t = critical then 403 else 153)))"
  proof (intro allI impI)
    fix r assume "generateFallbackSummaries articles k = Some r"
    then obtain p where p: "find (\<lambda>p. art_id (fst p) = k) (rev articles) = Some p"
      and r: "r = fallbackSummary p"
      unfolding g by auto
    obtain a t where at: "p = (a, t)" by (cases p)
    from p have "p \<in> set articles" "art_id (fst p) = k" by (auto dest: find_SomeD)
    with at r show "\<exists>a t. (a, t) \<in> set articles \<and> art_id a = k
           \<and> summary r = take (if t = critical then 400 else 150) (art_excerpt a) @ ''...''
           \<and> oneLiner r = Some (art_title a)
           \<and> length (summary r) \<le> (if t = critical then 404 else 154)
           \<and> (length (art_excerpt a) = 500
                \<longrightarrow> length (summary r) = (if t = critical then 403 else 153))"
      by (intro exI [of _ a] exI [of _ t]) (auto simp: fallbackSummary_def)
  qed
  from g [of k] d u l show ?thesis by blast
qed

text \<open>
  Witness for the amended C8: the articles of the repository's test, with an excerpt of
  500 characters, one critical and one notable.
\<close>

theorem generateFallbackSummaries_last_pair_witness:
  "distinct (map (art_id \<circ> fst)
      [(createArticle ''1'' False None xs500, critical), (createArticle ''2'' False None xs500, notable)])
   \<and> (createArticle ''2'' False None xs500, notable)
       \<in> set [(createArticle ''1'' False None xs500, critical), (createArticle ''2'' False None xs500, notable)]
   \<and> dom (generateFallbackSummaries
        [(createArticle ''1'' False None xs500, critical), (createArticle ''2'' False None xs500, notable)])
       = {''1'', ''2''}
   \<and> (\<exists>r. generateFallbackSummaries
            [(createArticle ''1'' False None xs500, critical), (createArticle ''2'' False None xs500, notable)] ''2''
            = Some r
          \<and> summary r = replicate 150 (CHR ''x'') @ ''...'' \<and> oneLiner r = Some ''Article 2''
          \<and> length (summary r) = 153)"
proof -
  let ?as = "[(createArticle ''1'' False None xs500, critical), (createArticle ''2'' False None xs500, notable)]"
  have d: "distinct (map (art_id \<circ> fst) ?as)" by (simp add: createArticle_def)
  have m2: "(createArticle ''2'' False None xs500, notable) \<in> set ?as" by simp
  note t = generateFallbackSummaries_last_pair [of ?as "''2''" "createArticle ''2'' False None xs500" notable]
  from t have k: "dom (generateFallbackSummaries ?as) = set (map (art_id \<circ> fst) ?as)"
    by (rule conjunct2 [THEN conjunct1])
  have k': "dom (generateFallbackSummaries ?as) = {''1'', ''2''}"
    unfolding k by (simp add: createArticle_def)
  from t have "distinct (map (art_id \<circ> fst) ?as) \<and> (createArticle ''2'' False None xs500, notable) \<in> set ?as \<longrightarrow>
        (\<exists>r. generateFallbackSummaries ?as (art_id (createArticle ''2'' False None xs500)) = Some r
           \<and> summary r = take (if notable = critical then 400 else 150) (art_excerpt (createArticle ''2'' False None xs500)) @ ''...''
           \<and> oneLiner r = Some (art_title (createArticle ''2'' False None xs500)))"
    by (rule conjunct2 [THEN conjunct2, THEN conjunct1])
  with d m2 obtain r2 where r2: "generateFallbackSummaries ?as ''2'' = Some r2"
      "summary r2 = replicate 150 (CHR ''x'') @ ''...''" "oneLiner r2 = Some ''Article 2''"
    by (auto simp: createArticle_def xs500_def)
  have "length (summary r2) = 153" by (simp add: r2)
  with d m2 k' r2 show ?thesis by blast
qed

text \<open>
  Claim C9. When the run has an admin user, finds no saved article and selects no feed
  item after scoring, deduplication and selection, it returns without a delivery call,
  and the digest-run record has status \<open>SUCCESS\<close>, no included article, no included feed
  item and the error text \<open>No articles available\<close>.
\<close>

theorem main_early_exit:
  assumes "adminUser env = Some userId"
    and "savedArticles env = []"
    and "selectedFeedItems_of env = []"
  shows "deliveries (fst (main env)) = []
       \<and> snd (main env) = Inr ()
       \<and> digestRun (fst (main env))
           = Some \<lparr> run_userId = userId, status = SUCCESS, finishedAt = Some (newDate env),
                    includedArticleIds = [], feedItemsIncluded = [], epubFilename = None,
                    emailMessageId = None, error = Some ''No articles available'' \<rparr>"
  using assms by (simp add: main_def Let_def emptyWorld_def)

text \<open>Witness for C9: the environment without saved articles and feed items.\<close>

theorem main_early_exit_witness:
  "adminUser emptyEnv = Some ''admin'' \<and> savedArticles emptyEnv = []
   \<and> selectedFeedItems_of emptyEnv = []
   \<and> deliveries (fst (main emptyEnv)) = []
   \<and> snd (main emptyEnv) = Inr ()
   \<and> map_option status (digestRun (fst (main emptyEnv))) = Some SUCCESS
   \<and> map_option error (digestRun (fst (main emptyEnv))) = Some (Some ''No articles available'')"
proof -
  have a: "adminUser emptyEnv = Some ''admin''" and b: "savedArticles emptyEnv = []"
    by (simp_all add: emptyEnv_def)
  note c = selectedFeedItems_emptyEnv(1)
  from main_early_exit [OF a b c] a b c show ?thesis by simp
qed

text \<open>
  Claim C10. For a list of pairwise distinct items (distinct references) and
  \<open>maxItems \<ge> 0\<close>, the result of \<open>selectDiverseItems\<close> has no repeated item, contains
  only items of the input, and its length is the minimum of \<open>maxItems\<close> and the length
  of the input.
\<close>

theorem selectDiverseItems_distinct_bounded:
  assumes "distinct scoredItems" and "0 \<le> maxItems"
  shows "distinct (selectDiverseItems h scoredItems maxItems maxPerTopic)
       \<and> set (selectDiverseItems h scoredItems maxItems maxPerTopic) \<subseteq> set scoredItems
       \<and> int (length (selectDiverseItems h scoredItems maxItems maxPerTopic))
           = min maxItems (int (length scoredItems))"
proof -
  define sel where "sel = fst (diversityPass h scoredItems maxItems maxPerTopic ([], Map.empty))"
  have p: "distinct sel" "set sel \<subseteq> set scoredItems" "int (length sel) \<le> maxItems"
    using diversityPass_props [of "[]" scoredItems h maxItems maxPerTopic Map.empty] assms
    by (auto simp: sel_def)
  have le: "length sel \<le> length scoredItems"
    using p(1,2) assms(1) by (metis card_mono distinct_card List.finite_set)
  show ?thesis
  proof (cases "int (length sel) < maxItems")
    case True
    have r: "selectDiverseItems h scoredItems maxItems maxPerTopic = fillPass scoredItems maxItems sel"
      using True by (simp add: selectDiverseItems_def sel_def Let_def)
    have "int (length (fillPass scoredItems maxItems sel)) =
            min maxItems (int (length sel) + int (length (filter (\<lambda>r. r \<notin> set sel) scoredItems)))"
      using assms(1) p(3) by (rule fillPass_length)
    also have "\<dots> = min maxItems (int (length scoredItems))"
      using length_filter_not_selected [OF p(1) assms(1) p(2)] by (metis of_nat_add)
    finally show ?thesis
      using r fillPass_distinct [OF p(1)] fillPass_subset [of scoredItems maxItems sel] p(2)
      by auto
  next
    case False
    then have r: "selectDiverseItems h scoredItems maxItems maxPerTopic = sel"
      by (simp add: selectDiverseItems_def sel_def Let_def)
    with False p le show ?thesis by auto
  qed
qed

text \<open>Witness for C10: the six items of the repository's test, with \<open>maxItems = 5\<close>.\<close>

theorem selectDiverseItems_distinct_bounded_witness:
  "distinct [0, 1, 2, 3, 4, 5 :: nat] \<and> (0 :: int) \<le> 5
   \<and> distinct (selectDiverseItems testStore [0, 1, 2, 3, 4, 5] 5 2)
   \<and> set (selectDiverseItems testStore [0, 1, 2, 3, 4, 5] 5 2) \<subseteq> set [0, 1, 2, 3, 4, 5]
   \<and> int (length (selectDiverseItems testStore [0, 1, 2, 3, 4, 5] 5 2)) = 5"
proof -
  have d: "distinct [0, 1, 2, 3, 4, 5 :: nat]" and m: "(0 :: int) \<le> 5" by simp_all
  from selectDiverseItems_distinct_bounded [OF d m, of testStore 2] d m
  show ?thesis by simp
qed

end
